theory Spec2Isabelle
  imports Main "HOL-Library.Word" "HOL-Library.Multiset"
begin

chapter \<open>The clang indexer of sourceweb: extraction, merge and the pipeline\<close>

text \<open>
  A shallow embedding of \<^verbatim>\<open>clang-indexer/main.cc\<close>: the visitor that turns the cursors
  of a translation unit into rows of a per-file Index, \<^verbatim>\<open>newIndex\<close>,
  \<^verbatim>\<open>indexSourceFile\<close>, \<^verbatim>\<open>readSourcesJson\<close> and \<^verbatim>\<open>main\<close>. The libraries the file
  is built on are models of their interfaces: libclang (cursors), jsoncpp (the build
  descriptor), QtConcurrent (the worker pool), and libindexdb, the Index database of
  the repository itself, whose code is not at hand and which follows the
  specification.
\<close>

section \<open>Errors\<close>

text \<open>
  Every way in which the indexer can stop early is a value of \<open>error\<close>; a fallible
  operation returns \<open>error + 'a\<close> with \<open>Inl\<close> for the failure.
  \<^item> \<open>StateError\<close>: a mutation of a read-only Index (spec 4.3, 7).
  \<^item> \<open>SchemaMismatch\<close>: a row whose width is not the table's, or a merge of two
    Indexes whose schemas differ (spec 3, 4.3, 7).
  \<^item> \<open>DuplicateName\<close>: a table name registered twice (spec 4.3).
  \<^item> \<open>NoSuchTable\<close>: a table looked up by a name that is not registered.
  \<^item> \<open>BadID\<close>: a foreign key outside the translation map during a merge.
  \<^item> \<open>AssertionFailed\<close>: the \<^verbatim>\<open>assert(usrCStr)\<close> of main.cc line 50.
  \<^item> \<open>JsonLogicError\<close>: jsoncpp's own assertion on a value of the wrong type.
\<close>

datatype error =
  StateError | SchemaMismatch | DuplicateName | NoSuchTable | BadID
  | AssertionFailed | JsonLogicError

definition bindE :: "error + 'a \<Rightarrow> ('a \<Rightarrow> error + 'b) \<Rightarrow> error + 'b" where
  "bindE m f = (case m of Inl e \<Rightarrow> Inl e | Inr x \<Rightarrow> f x)"

section \<open>The Index Database (libindexdb)\<close>

text \<open>
  Modelled from the spec: \<^verbatim>\<open>../libindexdb/IndexDb.h\<close> and its implementation
  (\<^verbatim>\<open>indexdb::ID\<close>, \<^verbatim>\<open>Row\<close>, \<^verbatim>\<open>StringTable\<close>, \<^verbatim>\<open>Table\<close>, \<^verbatim>\<open>Index\<close> with
  \<^verbatim>\<open>addStringTable\<close>, \<^verbatim>\<open>addTable\<close>, \<^verbatim>\<open>stringTable\<close>, \<^verbatim>\<open>table\<close>, \<^verbatim>\<open>insert\<close>, \<^verbatim>\<open>add\<close>,
  \<^verbatim>\<open>setReadOnly\<close>, \<^verbatim>\<open>merge\<close>, \<^verbatim>\<open>save\<close>) are included by main.cc but are not part of
  the sources at hand. The definitions of this section follow sections 3, 4.3 and 4.4 of
  the specification.

  An ID is an unsigned integer (spec 3: Row); no arithmetic is done on IDs, so \<open>nat\<close>
  carries them. A StringTable is the list of its strings, the ID of a string being its
  position (spec 3: dense, 0-based, first-insertion order). A Table has one name per
  column, the empty name for a raw integer column and the name of a StringTable for a
  foreign key (main.cc lines 120-133 pass exactly such lists to \<^verbatim>\<open>addTable\<close>), and its
  rows in order. An Index keeps its StringTables and its Tables by name, in the order
  of registration, and its lifecycle state.
\<close>

type_synonym ID = nat

type_synonym Row = "ID list"

type_synonym StringTable = "string list"

record Table =
  columnNames :: "string list"
  rows :: "Row list"

record Index =
  stringTables :: "(string \<times> StringTable) list"
  tables :: "(string \<times> Table) list"
  readonly :: bool

text \<open>
  Modelled from the spec: the constructor \<^verbatim>\<open>new indexdb::Index\<close>. Spec 3 creates an
  Index empty; the tables are registered afterwards by \<^verbatim>\<open>addStringTable\<close> and
  \<^verbatim>\<open>addTable\<close>, which fail on a name already registered (spec 4.3), so the constructor
  itself registers nothing: otherwise \<^verbatim>\<open>newIndex\<close> (main.cc line 112) could never
  succeed.
\<close>

definition Index_new :: Index where
  "Index_new = \<lparr>stringTables = [], tables = [], readonly = False\<rparr>"

text \<open>Modelled from the spec: \<^verbatim>\<open>Index::addStringTable\<close> (spec 4.3).\<close>

definition addStringTable :: "string \<Rightarrow> Index \<Rightarrow> error + Index" where
  "addStringTable name idx =
     (if readonly idx then Inl StateError
      else if name \<in> set (map fst (stringTables idx)) then Inl DuplicateName
      else Inr (idx\<lparr>stringTables := stringTables idx @ [(name, [])]\<rparr>))"

text \<open>Modelled from the spec: \<^verbatim>\<open>Index::addTable\<close> (spec 4.3).\<close>

definition addTable :: "string \<Rightarrow> string list \<Rightarrow> Index \<Rightarrow> error + Index" where
  "addTable name cols idx =
     (if readonly idx then Inl StateError
      else if name \<in> set (map fst (tables idx)) then Inl DuplicateName
      else Inr (idx\<lparr>tables := tables idx @ [(name, \<lparr>columnNames = cols, rows = []\<rparr>)]\<rparr>))"

text \<open>
  Modelled from the spec: \<^verbatim>\<open>StringTable::insert\<close> (spec 4.3): the existing ID of a
  string that is present, else the string is appended and gets the next ID.
\<close>

fun indexOf :: "string \<Rightarrow> StringTable \<Rightarrow> ID option" where
  "indexOf s [] = None"
| "indexOf s (x # xs) =
     (if x = s then Some 0
      else (case indexOf s xs of None \<Rightarrow> None | Some i \<Rightarrow> Some (Suc i)))"

definition st_insert :: "string \<Rightarrow> StringTable \<Rightarrow> ID \<times> StringTable" where
  "st_insert s st =
     (case indexOf s st of Some i \<Rightarrow> (i, st) | None \<Rightarrow> (length st, st @ [s]))"

text \<open>
  Modelled from the spec: \<^verbatim>\<open>Index::stringTable\<close>, \<^verbatim>\<open>Index::table\<close>,
  \<^verbatim>\<open>StringTable::insert\<close> and \<^verbatim>\<open>Table::add\<close> on the tables of an Index. main.cc
  reaches a StringTable or a Table through a pointer it got from
  \<^verbatim>\<open>index->stringTable(name)\<close> or \<^verbatim>\<open>index->table(name)\<close> (lines 177-181); here the
  pointer is the name, and an operation through it updates the named table inside the
  Index. \<^verbatim>\<open>insert\<close> and \<^verbatim>\<open>add\<close> fail with StateError on a read-only Index, and
  \<^verbatim>\<open>add\<close> fails on a row of the wrong width (spec 4.3).
\<close>

definition insertString :: "string \<Rightarrow> string \<Rightarrow> Index \<Rightarrow> error + (ID \<times> Index)" where
  "insertString tname s idx =
     (if readonly idx then Inl StateError
      else (case map_of (stringTables idx) tname of
              None \<Rightarrow> Inl NoSuchTable
            | Some st \<Rightarrow>
                (let (i, st') = st_insert s st
                 in Inr (i, idx\<lparr>stringTables :=
                              map (\<lambda>(n, t). if n = tname then (n, st') else (n, t))
                                (stringTables idx)\<rparr>))))"

definition addRow :: "string \<Rightarrow> Row \<Rightarrow> Index \<Rightarrow> error + Index" where
  "addRow tname row idx =
     (if readonly idx then Inl StateError
      else (case map_of (tables idx) tname of
              None \<Rightarrow> Inl NoSuchTable
            | Some t \<Rightarrow>
                if length row \<noteq> length (columnNames t) then Inl SchemaMismatch
                else Inr (idx\<lparr>tables :=
                            map (\<lambda>(n, t'). if n = tname then (n, t'\<lparr>rows := rows t' @ [row]\<rparr>)
                                            else (n, t'))
                              (tables idx)\<rparr>)))"

text \<open>Modelled from the spec: \<^verbatim>\<open>Index::setReadOnly\<close> (spec 4.3), idempotent.\<close>

definition setReadOnly :: "Index \<Rightarrow> Index" where
  "setReadOnly idx = idx\<lparr>readonly := True\<rparr>"

text \<open>
  The schema of an Index: the names of its StringTables and, per Table, its name and
  its column names (each a foreign-key target or raw).
\<close>

definition schema :: "Index \<Rightarrow> string list \<times> (string \<times> string list) list" where
  "schema idx = (map fst (stringTables idx), map (\<lambda>(n, t). (n, columnNames t)) (tables idx))"

section \<open>newIndex (main.cc lines 112-136)\<close>

definition refColumns :: "string list" where
  "refColumns = [''usr'', ''path'', '''', '''', ''kind'']"

definition locColumns :: "string list" where
  "locColumns = [''path'', '''', '''', ''usr'']"

definition newIndex :: "error + Index" where
  "newIndex =
     bindE (addStringTable ''path'' Index_new) (\<lambda>i1.
     bindE (addStringTable ''kind'' i1) (\<lambda>i2.
     bindE (addStringTable ''usr'' i2) (\<lambda>i3.
     bindE (addTable ''ref'' refColumns i3) (\<lambda>i4.
     addTable ''loc'' locColumns i4))))"

text \<open>The value \<^verbatim>\<open>newIndex()\<close> returns, written out.\<close>

definition emptyIndex :: Index where
  "emptyIndex =
     \<lparr>stringTables = [(''path'', []), (''kind'', []), (''usr'', [])],
      tables = [(''ref'', \<lparr>columnNames = refColumns, rows = []\<rparr>),
                (''loc'', \<lparr>columnNames = locColumns, rows = []\<rparr>)],
      readonly = False\<rparr>"

section \<open>The frontend (libclang)\<close>

text \<open>
  libclang is an external collaborator; a cursor is modelled by what the visitor reads
  from it (main.cc lines 42-58):
  \<^item> \<open>cursorUSR\<close>: \<^verbatim>\<open>clang_getCString(clang_getCursorUSR(cursor))\<close>, \<open>None\<close> for
    a NULL C string;
  \<^item> \<open>cursorReferenced\<close>: \<open>None\<close> when \<^verbatim>\<open>clang_getCursorReferenced(cursor)\<close> is
    the null cursor, else the C string of the referenced cursor's USR;
  \<^item> \<open>locationFile\<close>, \<open>locationLine\<close>, \<open>locationColumn\<close>: the file name (a
    C string, possibly NULL) and the \<^verbatim>\<open>unsigned int\<close> line and column that
    \<^verbatim>\<open>clang_getInstantiationLocation\<close> gives for the cursor's location;
  \<^item> \<open>kindSpelling\<close>: the C string of \<^verbatim>\<open>clang_getCursorKindSpelling\<close>, possibly NULL.
  A translation unit is the list of the children of its root cursor:
  \<^verbatim>\<open>clang_visitChildren(tuCursor, ...)\<close> passes the descendants of \<^verbatim>\<open>tuCursor\<close> to the
  visitor and never \<^verbatim>\<open>tuCursor\<close> itself.
\<close>

record CursorData =
  cursorUSR :: "string option"
  cursorReferenced :: "string option option"
  locationFile :: "string option"
  locationLine :: "32 word"
  locationColumn :: "32 word"
  kindSpelling :: "string option"

datatype Cursor = Cursor CursorData "Cursor list"

type_synonym TranslationUnit = "Cursor list"

datatype CXChildVisitResult = CXChildVisit_Break | CXChildVisit_Continue | CXChildVisit_Recurse

text \<open>
  \<^verbatim>\<open>clang_visitChildren\<close>: the visitor is called on each child in order; on
  \<^verbatim>\<open>CXChildVisit_Break\<close> the whole traversal stops, on \<^verbatim>\<open>CXChildVisit_Continue\<close> the
  children of the cursor are skipped, on \<^verbatim>\<open>CXChildVisit_Recurse\<close> they are visited
  before the next sibling. The boolean of the result says whether the traversal was
  broken off. A visitor that fails (an assertion) ends the traversal with its error.
\<close>

fun clang_visitChildren ::
    "(CursorData \<Rightarrow> 's \<Rightarrow> error + (CXChildVisitResult \<times> 's)) \<Rightarrow> Cursor list \<Rightarrow> 's
      \<Rightarrow> error + (bool \<times> 's)"
  and visitCursor ::
    "(CursorData \<Rightarrow> 's \<Rightarrow> error + (CXChildVisitResult \<times> 's)) \<Rightarrow> Cursor \<Rightarrow> 's
      \<Rightarrow> error + (bool \<times> 's)" where
  "clang_visitChildren v [] s = Inr (False, s)"
| "clang_visitChildren v (c # cs) s =
     (case visitCursor v c s of
        Inl e \<Rightarrow> Inl e
      | Inr (True, s') \<Rightarrow> Inr (True, s')
      | Inr (False, s') \<Rightarrow> clang_visitChildren v cs s')"
| "visitCursor v (Cursor d children) s =
     (case v d s of
        Inl e \<Rightarrow> Inl e
      | Inr (CXChildVisit_Break, s') \<Rightarrow> Inr (True, s')
      | Inr (CXChildVisit_Continue, s') \<Rightarrow> Inr (False, s')
      | Inr (CXChildVisit_Recurse, s') \<Rightarrow> clang_visitChildren v children s')"

section \<open>TUIndexer::visitor (main.cc lines 33-95)\<close>

definition nullToBlank :: "string option \<Rightarrow> string" where
  "nullToBlank s = (case s of Some x \<Rightarrow> x | None \<Rightarrow> [])"

text \<open>Lines 42-49: the USR of the referenced cursor replaces the cursor's own.\<close>

definition resolvedUSR :: "CursorData \<Rightarrow> string option" where
  "resolvedUSR cursor =
     (case cursorReferenced cursor of None \<Rightarrow> cursorUSR cursor | Some u \<Rightarrow> u)"

text \<open>
  The fields \<^verbatim>\<open>usrStringTable\<close>, \<^verbatim>\<open>pathStringTable\<close>, \<^verbatim>\<open>kindStringTable\<close>, \<^verbatim>\<open>refTable\<close>
  and \<^verbatim>\<open>locTable\<close> of the TUIndexer point into its Index at the tables named usr,
  path, kind, ref and loc (lines 177-181). The parent cursor is not used. Line and
  column are stored in the row as they are (\<open>unat\<close> reads the value of the word).
\<close>

definition visitor :: "CursorData \<Rightarrow> Index \<Rightarrow> error + (CXChildVisitResult \<times> Index)" where
  "visitor cursor index =
     (case resolvedUSR cursor of
        None \<Rightarrow> Inl AssertionFailed
      | Some usrCStr \<Rightarrow>
          if usrCStr \<noteq> [] then
            (let fileNameCStr = nullToBlank (locationFile cursor);
                 kindCStr = nullToBlank (kindSpelling cursor);
                 line = unat (locationLine cursor);
                 column = unat (locationColumn cursor)
             in bindE (insertString ''usr'' usrCStr index) (\<lambda>(usrID, i1).
                bindE (insertString ''path'' fileNameCStr i1) (\<lambda>(fileNameID, i2).
                bindE (insertString ''kind'' kindCStr i2) (\<lambda>(kindID, i3).
                bindE (addRow ''ref'' [usrID, fileNameID, line, column, kindID] i3) (\<lambda>i4.
                bindE (addRow ''loc'' [fileNameID, line, column, usrID] i4) (\<lambda>i5.
                Inr (CXChildVisit_Recurse, i5)))))))
          else Inr (CXChildVisit_Recurse, index))"

section \<open>indexSourceFile (main.cc lines 105-110, 138-195)\<close>

record SourceFileInfo =
  path :: string
  defines' :: "string list"
  includes' :: "string list"
  extraArgs :: "string list"

text \<open>
  The fields \<^verbatim>\<open>defines\<close> and \<^verbatim>\<open>includes\<close> carry a prime, their names being
  keywords of Isabelle.
  \<^verbatim>\<open>clang_parseTranslationUnit\<close> is the frontend: from the path and the argument list
  it gives a translation unit, or NULL (\<open>None\<close>) when the file does not parse. The
  message written to \<^verbatim>\<open>std::cerr\<close> on that path is not part of the model.
\<close>

type_synonym Frontend = "string \<Rightarrow> string list \<Rightarrow> TranslationUnit option"

definition compilerArgs :: "SourceFileInfo \<Rightarrow> string list" where
  "compilerArgs sfi =
     map (\<lambda>define. ''-D'' @ define) (defines' sfi)
     @ map (\<lambda>include. ''-I'' @ include) (includes' sfi)
     @ extraArgs sfi"

definition indexSourceFile :: "Frontend \<Rightarrow> SourceFileInfo \<Rightarrow> error + Index" where
  "indexSourceFile parseTU sfi =
     (case parseTU (path sfi) (compilerArgs sfi) of
        None \<Rightarrow> newIndex
      | Some tu \<Rightarrow>
          bindE newIndex (\<lambda>index.
          bindE (clang_visitChildren visitor tu index) (\<lambda>(broken, index').
          Inr (setReadOnly index'))))"

section \<open>The Merge Engine (libindexdb)\<close>

text \<open>
  Modelled from the spec: \<^verbatim>\<open>Index::merge\<close>, which main.cc calls at line 226 and whose
  code is not among the sources; the definitions follow spec 4.4.

  Step 1, for one StringTable: the strings of the source are inserted in ID order into
  the destination's table, and the destination IDs they get are recorded in the same
  order: the translation map, \<open>ids ! sourceID = destinationID\<close>.
\<close>

fun mergeStrings :: "StringTable \<Rightarrow> StringTable \<Rightarrow> ID list \<times> StringTable" where
  "mergeStrings [] dst = ([], dst)"
| "mergeStrings (s # ss) dst =
     (let (i, dst1) = st_insert s dst;
          (ids, dst2) = mergeStrings ss dst1
      in (i # ids, dst2))"

text \<open>
  Modelled from the spec: step 1 of \<^verbatim>\<open>Index::merge\<close> for every StringTable name
  present in both Indexes (spec 4.4): the translation map of a name, and the
  StringTables of the destination after the step.
\<close>

definition translationMap :: "Index \<Rightarrow> Index \<Rightarrow> string \<Rightarrow> ID list option" where
  "translationMap dst src name =
     (case map_of (stringTables src) name of
        None \<Rightarrow> None
      | Some ss \<Rightarrow>
          (case map_of (stringTables dst) name of
             None \<Rightarrow> None
           | Some ds \<Rightarrow> Some (fst (mergeStrings ss ds))))"

definition mergeStringTables :: "Index \<Rightarrow> Index \<Rightarrow> (string \<times> StringTable) list" where
  "mergeStringTables dst src =
     map (\<lambda>(name, ds).
            (case map_of (stringTables src) name of
               None \<Rightarrow> (name, ds)
             | Some ss \<Rightarrow> (name, snd (mergeStrings ss ds))))
       (stringTables dst)"

text \<open>
  Modelled from the spec: step 2 of \<^verbatim>\<open>Index::merge\<close> for one row: a raw column (empty column name) passes through, a foreign-key
  column is rewritten through the translation map of its StringTable. The spec does
  not say what happens to a foreign key without a translation map or outside it, nor
  to a row that is not as wide as its schema; the model fails there, so that nothing
  is proved from a value the spec does not fix.
\<close>

definition translateCell :: "(string \<Rightarrow> ID list option) \<Rightarrow> string \<Rightarrow> ID \<Rightarrow> error + ID" where
  "translateCell m col v =
     (if col = [] then Inr v
      else (case m col of
              None \<Rightarrow> Inl NoSuchTable
            | Some ids \<Rightarrow> if v < length ids then Inr (ids ! v) else Inl BadID))"

fun translateRow :: "(string \<Rightarrow> ID list option) \<Rightarrow> string list \<Rightarrow> Row \<Rightarrow> error + Row" where
  "translateRow m [] [] = Inr []"
| "translateRow m (col # cols) (v # vs) =
     (case translateCell m col v of
        Inl e \<Rightarrow> Inl e
      | Inr v' \<Rightarrow>
          (case translateRow m cols vs of
             Inl e \<Rightarrow> Inl e
           | Inr vs' \<Rightarrow> Inr (v' # vs')))"
| "translateRow m cols vs = Inl SchemaMismatch"

text \<open>
  Modelled from the spec: step 2 of \<^verbatim>\<open>Index::merge\<close> for one Table: the rows of the source in their order, each translated (its
  columns are those of the source's schema) and appended to the destination's table
  by \<^verbatim>\<open>add\<close>, which fails on a row that is not as wide as the destination's schema.
\<close>

fun mergeRows :: "(string \<Rightarrow> ID list option) \<Rightarrow> string list \<Rightarrow> Row list \<Rightarrow> Table \<Rightarrow> error + Table" where
  "mergeRows m cols [] dstT = Inr dstT"
| "mergeRows m cols (r # rs) dstT =
     (case translateRow m cols r of
        Inl e \<Rightarrow> Inl e
      | Inr r' \<Rightarrow>
          if length r' \<noteq> length (columnNames dstT) then Inl SchemaMismatch
          else mergeRows m cols rs (dstT\<lparr>rows := rows dstT @ [r']\<rparr>))"

text \<open>
  Modelled from the spec: step 2 of \<^verbatim>\<open>Index::merge\<close> for every Table name present
  in both Indexes (spec 4.4); a Table of the destination that the source does not have
  stays as it is.
\<close>

fun mergeTables ::
    "(string \<Rightarrow> ID list option) \<Rightarrow> (string \<times> Table) list \<Rightarrow> (string \<times> Table) list
      \<Rightarrow> error + (string \<times> Table) list" where
  "mergeTables m srcTs [] = Inr []"
| "mergeTables m srcTs ((name, dstT) # dstTs) =
     (case (case map_of srcTs name of
              None \<Rightarrow> Inr dstT
            | Some srcT \<Rightarrow> mergeRows m (columnNames srcT) (rows srcT) dstT) of
        Inl e \<Rightarrow> Inl e
      | Inr dstT' \<Rightarrow>
          (case mergeTables m srcTs dstTs of
             Inl e \<Rightarrow> Inl e
           | Inr dstTs' \<Rightarrow> Inr ((name, dstT') # dstTs')))"

text \<open>
  Modelled from the spec: \<^verbatim>\<open>Index::merge\<close>, as in \<^verbatim>\<open>dst->merge(src)\<close>: both steps.
  A merge mutates the destination, so it fails with StateError on a read-only
  destination (spec 4.3). Two Indexes may only be merged if their schemas are
  structurally identical (spec 3), and a merge against an incompatible schema fails
  fast with SchemaMismatch (spec 7).
\<close>

definition merge :: "Index \<Rightarrow> Index \<Rightarrow> error + Index" where
  "merge dst src =
     (if readonly dst then Inl StateError
      else if schema dst \<noteq> schema src then Inl SchemaMismatch
      else bindE (mergeTables (translationMap dst src) (tables src) (tables dst)) (\<lambda>ts.
           Inr (dst\<lparr>stringTables := mergeStringTables dst src, tables := ts\<rparr>)))"

section \<open>The build descriptor (jsoncpp)\<close>

text \<open>
  jsoncpp is an external library. A \<^verbatim>\<open>Json::Value\<close> is modelled with the kinds of
  value a descriptor is made of; numbers and booleans are left out. The members of an
  object are listed in the order in which jsoncpp iterates over them.
  \<^item> Iterating (\<^verbatim>\<open>begin()\<close> to \<^verbatim>\<open>end()\<close>) goes through the elements of an array or the
    member values of an object; any other value has no elements.
  \<^item> The non-const \<^verbatim>\<open>operator[](const char*)\<close> gives the member of an object, null for
    a missing one; it turns a null value into an empty object first, and on any other
    value jsoncpp's assertion fails.
  \<^item> \<^verbatim>\<open>asString()\<close> gives the string of a string value and the empty string for null;
    an array or an object is not convertible and jsoncpp's assertion fails.
\<close>

datatype Json = JNull | JString string | JArray "Json list" | JObject "(string \<times> Json) list"

definition elements :: "Json \<Rightarrow> Json list" where
  "elements json = (case json of JArray xs \<Rightarrow> xs | JObject ms \<Rightarrow> map snd ms | _ \<Rightarrow> [])"

definition jsonMember :: "Json \<Rightarrow> string \<Rightarrow> error + Json" where
  "jsonMember json key =
     (case json of
        JNull \<Rightarrow> Inr JNull
      | JObject ms \<Rightarrow> Inr (case map_of ms key of None \<Rightarrow> JNull | Some v \<Rightarrow> v)
      | _ \<Rightarrow> Inl JsonLogicError)"

definition asString :: "Json \<Rightarrow> error + string" where
  "asString json =
     (case json of JString s \<Rightarrow> Inr s | JNull \<Rightarrow> Inr [] | _ \<Rightarrow> Inl JsonLogicError)"

fun mapE :: "('a \<Rightarrow> error + 'b) \<Rightarrow> 'a list \<Rightarrow> error + 'b list" where
  "mapE f [] = Inr []"
| "mapE f (x # xs) =
     (case f x of
        Inl e \<Rightarrow> Inl e
      | Inr y \<Rightarrow> (case mapE f xs of Inl e \<Rightarrow> Inl e | Inr ys \<Rightarrow> Inr (y # ys)))"

text \<open>\<^verbatim>\<open>readJsonStringList\<close> (main.cc lines 197-204).\<close>

definition readJsonStringList :: "Json \<Rightarrow> error + string list" where
  "readJsonStringList json = mapE asString (elements json)"

text \<open>The body of the first loop of \<^verbatim>\<open>readSourcesJson\<close> up to line 218.\<close>

definition readSourceFileInfo :: "Json \<Rightarrow> error + SourceFileInfo" where
  "readSourceFileInfo sourceJson =
     bindE (bindE (jsonMember sourceJson ''file'') asString) (\<lambda>p.
     bindE (bindE (jsonMember sourceJson ''defines'') readJsonStringList) (\<lambda>ds.
     bindE (bindE (jsonMember sourceJson ''includes'') readJsonStringList) (\<lambda>is.
     bindE (bindE (jsonMember sourceJson ''extraArgs'') readJsonStringList) (\<lambda>es.
     Inr \<lparr>path = p, defines' = ds, includes' = is, extraArgs = es\<rparr>))))"

section \<open>The worker pool (QtConcurrent)\<close>

text \<open>
  \<^verbatim>\<open>QtConcurrent::run(indexSourceFile, sfi)\<close> hands a task to the thread pool and gives
  a future; \<^verbatim>\<open>fileIndices[i]\<close> is the future of task \<open>i\<close>. The pool runs the tasks in
  an order of its own, \<open>sched\<close>: the list of the task numbers in the order in which
  the workers run them. A task writes its result into its own future and touches
  nothing else. \<^verbatim>\<open>result()\<close> waits for the task of the future and gives its result;
  on a future whose task the pool never runs it would wait for ever (\<open>None\<close>).
  A task that fails (the assertion in the visitor) takes the process down; in the
  model the failure shows where the result of the task is awaited.
\<close>

definition runTask :: "(nat \<Rightarrow> 'a) \<Rightarrow> nat \<Rightarrow> 'a option list \<Rightarrow> 'a option list" where
  "runTask task j futures = (if j < length futures then futures[j := Some (task j)] else futures)"

definition threadPool :: "nat list \<Rightarrow> nat \<Rightarrow> (nat \<Rightarrow> 'a) \<Rightarrow> 'a option list" where
  "threadPool sched n task = fold (runTask task) sched (replicate n None)"

definition futureResult :: "'a option list \<Rightarrow> nat \<Rightarrow> 'a option" where
  "futureResult futures i = (if i < length futures then futures ! i else None)"

section \<open>readSourcesJson and main (main.cc lines 206-247)\<close>

text \<open>
  What the run does is recorded as a list of events: the submission of task \<open>i\<close>, the
  path written to \<^verbatim>\<open>std::cout\<close>, the wait for the result of task \<open>i\<close>, the merge of
  the per-file Index of task \<open>i\<close> into the global Index and its deletion.
\<close>

datatype Event = Submitted nat | Printed string | Awaited nat | Merged nat | Deleted nat

text \<open>
  A run that does not reach the end of main: it was aborted by an error, or it waits
  for ever for a task that is never run.
\<close>

datatype failure = Aborted error | Hung

text \<open>
  The first loop (lines 211-221): one record and one task per element, in the order of
  the descriptor. The records read so far stand for \<^verbatim>\<open>paths\<close> (their paths) and for
  \<^verbatim>\<open>fileIndices\<close> (their tasks).
\<close>

fun dispatchLoop ::
    "Json list \<Rightarrow> SourceFileInfo list \<times> Event list
      \<Rightarrow> error + (SourceFileInfo list \<times> Event list)" where
  "dispatchLoop [] (sfis, tr) = Inr (sfis, tr)"
| "dispatchLoop (sourceJson # rest) (sfis, tr) =
     (case readSourceFileInfo sourceJson of
        Inl e \<Rightarrow> Inl e
      | Inr sfi \<Rightarrow> dispatchLoop rest (sfis @ [sfi], tr @ [Submitted (length sfis)]))"

text \<open>
  The second loop (lines 223-228), from \<open>i\<close> on, over the paths that are left.
\<close>

fun mergeLoop ::
    "(nat \<Rightarrow> (error + Index) option) \<Rightarrow> string list \<Rightarrow> nat \<Rightarrow> Index \<times> Event list
      \<Rightarrow> failure + (Index \<times> Event list)" where
  "mergeLoop fileIndices [] i (index, tr) = Inr (index, tr)"
| "mergeLoop fileIndices (p # ps) i (index, tr) =
     (case fileIndices i of
        None \<Rightarrow> Inl Hung
      | Some (Inl e) \<Rightarrow> Inl (Aborted e)
      | Some (Inr fileIndex) \<Rightarrow>
          (case merge index fileIndex of
             Inl e \<Rightarrow> Inl (Aborted e)
           | Inr index' \<Rightarrow>
               mergeLoop fileIndices ps (Suc i)
                 (index', tr @ [Printed p, Awaited i, Merged i, Deleted i])))"

definition readSourcesJson ::
    "Frontend \<Rightarrow> nat list \<Rightarrow> Json \<Rightarrow> Index \<Rightarrow> failure + (Index \<times> Event list)" where
  "readSourcesJson parseTU sched json index =
     (case dispatchLoop (elements json) ([], []) of
        Inl e \<Rightarrow> Inl (Aborted e)
      | Inr (sfis, tr) \<Rightarrow>
          (let fileIndices =
                 threadPool sched (length sfis) (\<lambda>i. indexSourceFile parseTU (sfis ! i))
           in mergeLoop (futureResult fileIndices) (map path sfis) 0 (index, tr)))"

text \<open>
  The overload of lines 231-238 opens the file and parses it, ignoring whether either
  worked, and goes on with \<^verbatim>\<open>rootJson\<close>. A file that cannot be opened gives the reader
  an empty stream; \<^verbatim>\<open>rootJson\<close> then stays the null value it was constructed as.
  Otherwise \<^verbatim>\<open>rootJson\<close> is whatever value the reader has built from the text.
\<close>

datatype DescriptorFile = Unreadable | Contents Json

definition parseDescriptor :: "DescriptorFile \<Rightarrow> Json" where
  "parseDescriptor f = (case f of Unreadable \<Rightarrow> JNull | Contents rootJson \<Rightarrow> rootJson)"

text \<open>
  Modelled from the spec: \<^verbatim>\<open>Index::save\<close>, which is not among the sources. It
  persists the Index as it is, schema, StringTables and Tables (spec 4.3); the field
  \<open>savedIndex\<close> of the result of a run is the content of the file \<^verbatim>\<open>index\<close>.

  \<^verbatim>\<open>main\<close>: the process either ends by \<^verbatim>\<open>return 0\<close> (the only return of main, line
  246) after \<^verbatim>\<open>index->save("index")\<close>, or it is aborted or hangs before, and then no
  file has been saved.
\<close>

record ProcessResult =
  exitCode :: int
  savedIndex :: Index
  events :: "Event list"

definition main :: "Frontend \<Rightarrow> nat list \<Rightarrow> DescriptorFile \<Rightarrow> failure + ProcessResult" where
  "main parseTU sched descriptor =
     (let index = Index_new
      in (case readSourcesJson parseTU sched (parseDescriptor descriptor) index of
            Inl f \<Rightarrow> Inl f
          | Inr (index', tr) \<Rightarrow>
              Inr \<lparr>exitCode = 0, savedIndex = setReadOnly index', events = tr\<rparr>))"

section \<open>Logical content and validity of an Index\<close>

text \<open>
  A row resolved back to strings (the debug export of spec 6): a raw column keeps its
  number, a foreign key becomes the string it stands for in its StringTable; a foreign
  key that points nowhere resolves to \<open>None\<close>.
\<close>

datatype Cell = Raw ID | Str string

definition resolveCell :: "Index \<Rightarrow> string \<Rightarrow> ID \<Rightarrow> Cell option" where
  "resolveCell idx col v =
     (if col = [] then Some (Raw v)
      else (case map_of (stringTables idx) col of
              None \<Rightarrow> None
            | Some st \<Rightarrow> if v < length st then Some (Str (st ! v)) else None))"

definition resolveRow :: "Index \<Rightarrow> string list \<Rightarrow> Row \<Rightarrow> Cell option list" where
  "resolveRow idx cols row = map (\<lambda>(col, v). resolveCell idx col v) (zip cols row)"

definition resolvedRows :: "Index \<Rightarrow> string \<Rightarrow> Cell option list list" where
  "resolvedRows idx name =
     (case map_of (tables idx) name of
        None \<Rightarrow> []
      | Some t \<Rightarrow> map (resolveRow idx (columnNames t)) (rows t))"

text \<open>The logical content: per table name, the set of its resolved rows.\<close>

definition logical :: "Index \<Rightarrow> string \<Rightarrow> Cell option list set" where
  "logical idx name = set (resolvedRows idx name)"

text \<open>
  The invariants of spec 3: names registered once, a string has one ID in its table,
  a row is as wide as its schema and its foreign keys are IDs of their StringTables.
\<close>

definition validCell :: "Index \<Rightarrow> string \<times> ID \<Rightarrow> bool" where
  "validCell idx cv =
     (fst cv = [] \<or>
      (case map_of (stringTables idx) (fst cv) of None \<Rightarrow> False | Some st \<Rightarrow> snd cv < length st))"

definition validRow :: "Index \<Rightarrow> string list \<Rightarrow> Row \<Rightarrow> bool" where
  "validRow idx cols row = (length row = length cols \<and> list_all (validCell idx) (zip cols row))"

definition valid :: "Index \<Rightarrow> bool" where
  "valid idx =
     (distinct (map fst (stringTables idx)) \<and> distinct (map fst (tables idx)) \<and>
      list_all (\<lambda>nt. distinct (snd nt)) (stringTables idx) \<and>
      list_all (\<lambda>nt. list_all (validRow idx (columnNames (snd nt))) (rows (snd nt))) (tables idx))"

section \<open>Notions for stating the properties\<close>

text \<open>The strings of a named StringTable and the rows of a named Table of an Index.\<close>

definition stringsOf :: "Index \<Rightarrow> string \<Rightarrow> StringTable" where
  "stringsOf idx name = (case map_of (stringTables idx) name of None \<Rightarrow> [] | Some st \<Rightarrow> st)"

definition tableRows :: "Index \<Rightarrow> string \<Rightarrow> Row list" where
  "tableRows idx name = (case map_of (tables idx) name of None \<Rightarrow> [] | Some t \<Rightarrow> rows t)"

text \<open>
  An Index with the schema that \<^verbatim>\<open>newIndex()\<close> registers, given by the contents of its
  three StringTables and two Tables and by its lifecycle state.
\<close>

definition perFileIndex ::
    "StringTable \<Rightarrow> StringTable \<Rightarrow> StringTable \<Rightarrow> Row list \<Rightarrow> Row list \<Rightarrow> bool \<Rightarrow> Index" where
  "perFileIndex p k u rr lr ro =
     \<lparr>stringTables = [(''path'', p), (''kind'', k), (''usr'', u)],
      tables = [(''ref'', \<lparr>columnNames = refColumns, rows = rr\<rparr>),
                (''loc'', \<lparr>columnNames = locColumns, rows = lr\<rparr>)],
      readonly = ro\<rparr>"

text \<open>All cursors of a translation unit below its root, depth first, parents first.\<close>

fun preorder :: "Cursor list \<Rightarrow> CursorData list"
  and preorderCursor :: "Cursor \<Rightarrow> CursorData list" where
  "preorder [] = []"
| "preorder (c # cs) = preorderCursor c @ preorder cs"
| "preorderCursor (Cursor d children) = d # preorder children"

text \<open>
  A cursor has an identifier when its resolved USR is a non-empty string; the
  assertion of line 50 holds for it when that C string is not NULL.
\<close>

definition hasIdentifier :: "CursorData \<Rightarrow> bool" where
  "hasIdentifier d = (case resolvedUSR d of None \<Rightarrow> False | Some usr \<Rightarrow> usr \<noteq> [])"

definition usrNotNull :: "CursorData \<Rightarrow> bool" where
  "usrNotNull d = (resolvedUSR d \<noteq> None)"

text \<open>
  The visitor with a log: it does what \<open>visitor\<close> does and also notes, in order, each
  cursor it is called on.
\<close>

definition tracedVisitor ::
    "CursorData \<Rightarrow> Index \<times> CursorData list
      \<Rightarrow> error + (CXChildVisitResult \<times> Index \<times> CursorData list)" where
  "tracedVisitor d s =
     (case visitor d (fst s) of
        Inl e \<Rightarrow> Inl e
      | Inr (r, idx') \<Rightarrow> Inr (r, idx', snd s @ [d]))"

text \<open>The visitor called on the cursors of a list, one after the other.\<close>

fun visitAll :: "CursorData list \<Rightarrow> Index \<Rightarrow> error + Index" where
  "visitAll [] idx = Inr idx"
| "visitAll (d # ds) idx =
     (case visitor d idx of Inl e \<Rightarrow> Inl e | Inr (r, idx') \<Rightarrow> visitAll ds idx')"

text \<open>The loc row that belongs to a ref row: (file, line, column, usr) of (usr, file, line, column, kind).\<close>

definition refToLoc :: "Row \<Rightarrow> Row" where
  "refToLoc r = [r ! 1, r ! 2, r ! 3, r ! 0]"

text \<open>
  The example of spec 8: a file that defines a function \<^verbatim>\<open>f\<close> and calls it. The
  declaration refers to itself, the call refers to the declaration, the compound
  statement between them has no identifier.
\<close>

definition declF :: CursorData where
  "declF = \<lparr>cursorUSR = Some ''c:@F@f'', cursorReferenced = Some (Some ''c:@F@f''),
            locationFile = Some ''a.c'', locationLine = 1, locationColumn = 6,
            kindSpelling = Some ''FunctionDecl''\<rparr>"

definition bodyF :: CursorData where
  "bodyF = \<lparr>cursorUSR = Some [], cursorReferenced = None,
            locationFile = Some ''a.c'', locationLine = 1, locationColumn = 10,
            kindSpelling = Some ''CompoundStmt''\<rparr>"

definition callF :: CursorData where
  "callF = \<lparr>cursorUSR = Some [], cursorReferenced = Some (Some ''c:@F@f''),
            locationFile = Some ''a.c'', locationLine = 3, locationColumn = 5,
            kindSpelling = Some ''CallExpr''\<rparr>"

definition exampleTU :: TranslationUnit where
  "exampleTU = [Cursor declF [Cursor bodyF [Cursor callF []]]]"

text \<open>A second file, \<^verbatim>\<open>c.c\<close>, that declares a variable \<^verbatim>\<open>g\<close>.\<close>

definition declG :: CursorData where
  "declG = \<lparr>cursorUSR = Some ''c:@g'', cursorReferenced = Some (Some ''c:@g''),
            locationFile = Some ''c.c'', locationLine = 2, locationColumn = 5,
            kindSpelling = Some ''VarDecl''\<rparr>"

definition otherTU :: TranslationUnit where
  "otherTU = [Cursor declG []]"

text \<open>A frontend that parses \<^verbatim>\<open>a.c\<close> and \<^verbatim>\<open>c.c\<close> and fails on every other path.\<close>

definition exampleFrontend :: Frontend where
  "exampleFrontend p args =
     (if p = ''a.c'' then Some exampleTU else if p = ''c.c'' then Some otherTU else None)"

definition sourceFile :: "string \<Rightarrow> SourceFileInfo" where
  "sourceFile p = \<lparr>path = p, defines' = [], includes' = [], extraArgs = []\<rparr>"

text \<open>The per-file Index of \<^verbatim>\<open>a.c\<close>, as extraction builds it.\<close>

definition exampleIndex :: Index where
  "exampleIndex =
     perFileIndex [''a.c''] [''FunctionDecl'', ''CallExpr''] [''c:@F@f'']
       [[0, 0, 1, 6, 0], [0, 0, 3, 5, 1]] [[0, 1, 6, 0], [0, 3, 5, 0]] True"

text \<open>The merges of the second loop of \<^verbatim>\<open>readSourcesJson\<close> alone, source after source.\<close>

fun mergeAll :: "Index \<Rightarrow> Index list \<Rightarrow> error + Index" where
  "mergeAll dst [] = Inr dst"
| "mergeAll dst (src # srcs) =
     (case merge dst src of Inl e \<Rightarrow> Inl e | Inr dst' \<Rightarrow> mergeAll dst' srcs)"

text \<open>What the second loop does with task \<open>i\<close> and its path, as events.\<close>

definition consumed :: "nat \<times> string \<Rightarrow> Event list" where
  "consumed ip = [Printed (snd ip), Awaited (fst ip), Merged (fst ip), Deleted (fst ip)]"

text \<open>
  A descriptor that lists the given paths, each without defines, includes or extra
  arguments; three files of which the second does not parse; two orders in which a
  pool may run three tasks; the per-file Index of \<^verbatim>\<open>c.c\<close>; the events of the run
  over the three files.
\<close>

definition descriptorOf :: "string list \<Rightarrow> Json" where
  "descriptorOf ps = JArray (map (\<lambda>p. JObject [(''file'', JString p)]) ps)"

definition threeFiles :: Json where
  "threeFiles = descriptorOf [''a.c'', ''b.c'', ''c.c'']"

definition exampleSched :: "nat list" where
  "exampleSched = [2, 0, 1]"

definition otherSched :: "nat list" where
  "otherSched = [1, 2, 0]"

definition otherIndex :: Index where
  "otherIndex = perFileIndex [''c.c''] [''VarDecl''] [''c:@g''] [[0, 0, 2, 5, 0]] [[0, 2, 5, 0]] True"

definition threeFilesTrace :: "Event list" where
  "threeFilesTrace =
     [Submitted 0, Submitted 1, Submitted 2,
      Printed ''a.c'', Awaited 0, Merged 0, Deleted 0,
      Printed ''b.c'', Awaited 1, Merged 1, Deleted 1,
      Printed ''c.c'', Awaited 2, Merged 2, Deleted 2]"

text \<open>
  For the proofs about \<^verbatim>\<open>merge\<close>: the row that \<open>translateRow\<close> gives where it
  succeeds; a column whose translation map sends every ID of the source's StringTable
  to an ID of the same string in the table of \<open>d\<close>; a column whose StringTable in
  \<open>d\<close> extends the one in \<open>dst\<close>.
\<close>

definition trRow :: "(string \<Rightarrow> ID list option) \<Rightarrow> string list \<Rightarrow> Row \<Rightarrow> Row" where
  "trRow m cols r = map (\<lambda>cv. if fst cv = [] then snd cv else the (m (fst cv)) ! snd cv) (zip cols r)"

definition linked :: "Index \<Rightarrow> Index \<Rightarrow> (string \<Rightarrow> ID list option) \<Rightarrow> string \<Rightarrow> bool" where
  "linked src d m c =
     (c = [] \<or>
      (\<exists>ids ss ds. m c = Some ids \<and> map_of (stringTables src) c = Some ss \<and>
         map_of (stringTables d) c = Some ds \<and> length ids = length ss \<and>
         (\<forall>v<length ss. ids ! v < length ds \<and> ds ! (ids ! v) = ss ! v)))"

definition extended :: "Index \<Rightarrow> Index \<Rightarrow> string \<Rightarrow> bool" where
  "extended dst d c =
     (c = [] \<or>
      (\<forall>ds. map_of (stringTables dst) c = Some ds \<longrightarrow>
         (\<exists>ys. map_of (stringTables d) c = Some (ds @ ys))))"

text \<open>A per-file Index: valid, with the schema that \<^verbatim>\<open>newIndex()\<close> registers.\<close>

definition perFile :: "Index \<Rightarrow> bool" where
  "perFile idx = (valid idx \<and> schema idx = schema emptyIndex)"

text \<open>
  The results of merging the Indexes of \<^verbatim>\<open>a.c\<close> and \<^verbatim>\<open>c.c\<close> into an empty Index
  with the schema of \<^verbatim>\<open>newIndex()\<close>: one alone, and both in either order.
\<close>

definition mergedA :: Index where
  "mergedA =
     perFileIndex [''a.c''] [''FunctionDecl'', ''CallExpr''] [''c:@F@f'']
       [[0, 0, 1, 6, 0], [0, 0, 3, 5, 1]] [[0, 1, 6, 0], [0, 3, 5, 0]] False"

definition mergedC :: Index where
  "mergedC = perFileIndex [''c.c''] [''VarDecl''] [''c:@g''] [[0, 0, 2, 5, 0]] [[0, 2, 5, 0]] False"

definition mergedAC :: Index where
  "mergedAC =
     perFileIndex [''a.c'', ''c.c''] [''FunctionDecl'', ''CallExpr'', ''VarDecl''] [''c:@F@f'', ''c:@g'']
       [[0, 0, 1, 6, 0], [0, 0, 3, 5, 1], [1, 1, 2, 5, 2]]
       [[0, 1, 6, 0], [0, 3, 5, 0], [1, 2, 5, 1]] False"

definition mergedCA :: Index where
  "mergedCA =
     perFileIndex [''c.c'', ''a.c''] [''VarDecl'', ''FunctionDecl'', ''CallExpr''] [''c:@g'', ''c:@F@f'']
       [[0, 0, 2, 5, 0], [1, 1, 1, 6, 1], [1, 1, 3, 5, 2]]
       [[0, 2, 5, 0], [1, 1, 6, 1], [1, 3, 5, 1]] False"

section \<open>Properties\<close>

subsection \<open>Indexes with the schema of newIndex, and the visitor on them\<close>

lemma newIndex_eq: "newIndex = Inr emptyIndex"
  by (simp add: newIndex_def bindE_def addStringTable_def addTable_def Index_new_def
      emptyIndex_def)

lemma schema_emptyIndexD:
  assumes "schema idx = schema emptyIndex"
  shows "idx = perFileIndex (stringsOf idx ''path'') (stringsOf idx ''kind'') (stringsOf idx ''usr'')
                 (tableRows idx ''ref'') (tableRows idx ''loc'') (readonly idx)"
proof -
  obtain sts ts ro where idx: "idx = \<lparr>stringTables = sts, tables = ts, readonly = ro\<rparr>"
    by (cases idx) auto
  from assms idx have 1: "map fst sts = [''path'', ''kind'', ''usr'']"
    and 2: "map (\<lambda>(n, t). (n, columnNames t)) ts = [(''ref'', refColumns), (''loc'', locColumns)]"
    by (simp_all add: schema_def emptyIndex_def)
  from 1 obtain p k u where sts: "sts = [(''path'', p), (''kind'', k), (''usr'', u)]"
    by (auto simp: map_eq_Cons_conv)
  from 2 obtain t1 t2 where ts: "ts = [(''ref'', t1), (''loc'', t2)]"
    and c: "columnNames t1 = refColumns" "columnNames t2 = locColumns"
    by (auto simp: map_eq_Cons_conv)
  have t1: "\<lparr>columnNames = refColumns, rows = rows t1\<rparr> = t1"
    using c(1) by (cases t1) simp
  have t2: "\<lparr>columnNames = locColumns, rows = rows t2\<rparr> = t2"
    using c(2) by (cases t2) simp
  show ?thesis
    by (simp add: idx sts ts perFileIndex_def stringsOf_def tableRows_def t1 t2)
qed

lemma visitor_perFileIndex:
  assumes "resolvedUSR c = Some usr" "usr \<noteq> []"
  shows "visitor c (perFileIndex p k u rr lr False) =
     Inr (CXChildVisit_Recurse,
       perFileIndex (snd (st_insert (nullToBlank (locationFile c)) p))
         (snd (st_insert (nullToBlank (kindSpelling c)) k))
         (snd (st_insert usr u))
         (rr @ [[fst (st_insert usr u), fst (st_insert (nullToBlank (locationFile c)) p),
                 unat (locationLine c), unat (locationColumn c),
                 fst (st_insert (nullToBlank (kindSpelling c)) k)]])
         (lr @ [[fst (st_insert (nullToBlank (locationFile c)) p),
                 unat (locationLine c), unat (locationColumn c), fst (st_insert usr u)]])
         False)"
  using assms
  by (simp add: visitor_def perFileIndex_def insertString_def addRow_def bindE_def Let_def
      split_def refColumns_def locColumns_def)

lemma indexOf_Some: "indexOf s st = Some i \<Longrightarrow> i < length st \<and> st ! i = s"
  by (induction st arbitrary: i) (auto split: if_splits option.splits)

lemma indexOf_None: "indexOf s st = None \<longleftrightarrow> s \<notin> set st"
  by (induction st) (auto split: option.splits)

lemma st_insert_lookup:
  "fst (st_insert s st) < length (snd (st_insert s st)) \<and>
   snd (st_insert s st) ! fst (st_insert s st) = s"
  by (auto simp: st_insert_def dest: indexOf_Some split: option.splits)

lemma st_insert_extends: "\<exists>ys. snd (st_insert s st) = st @ ys"
  by (simp add: st_insert_def split: option.splits)

lemma st_insert_distinct: "distinct st \<Longrightarrow> distinct (snd (st_insert s st))"
  by (auto simp: st_insert_def indexOf_None split: option.splits)


lemma tableRows_perFileIndex [simp]:
  "tableRows (perFileIndex p k u rr lr ro) ''ref'' = rr"
  "tableRows (perFileIndex p k u rr lr ro) ''loc'' = lr"
  by (simp_all add: tableRows_def perFileIndex_def)

lemma stringsOf_perFileIndex [simp]:
  "stringsOf (perFileIndex p k u rr lr ro) ''path'' = p"
  "stringsOf (perFileIndex p k u rr lr ro) ''kind'' = k"
  "stringsOf (perFileIndex p k u rr lr ro) ''usr'' = u"
  by (simp_all add: stringsOf_def perFileIndex_def)

lemma schema_perFileIndex: "schema (perFileIndex p k u rr lr ro) = schema emptyIndex"
  by (simp add: schema_def perFileIndex_def emptyIndex_def)

lemma readonly_perFileIndex [simp]: "readonly (perFileIndex p k u rr lr ro) = ro"
  by (simp add: perFileIndex_def)

lemma tableRows_emptyIndex [simp]: "tableRows emptyIndex name = []"
  by (simp add: tableRows_def emptyIndex_def)

lemma emptyIndex_perFileIndex: "emptyIndex = perFileIndex [] [] [] [] [] False"
  by (simp add: perFileIndex_def emptyIndex_def)

text \<open>
  Claim C9. For a cursor with a non-empty resolved identifier the visitor emits exactly
  two facts into an Index with the schema of \<^verbatim>\<open>newIndex()\<close>: the ref table gets
  the one row (usr, file, line, column, kind) and the loc table the one row
  (file, line, column, usr); the IDs of usr, file and kind are those of the identifier,
  of the file name and of the kind label in the StringTables usr, path and kind, and
  line and column are stored as they are. The visitor asks for recursion.
\<close>
theorem visitor_emits_two_facts:
  assumes "schema idx = schema emptyIndex" and "\<not> readonly idx"
    and "resolvedUSR c = Some usr" and "usr \<noteq> []"
  shows "\<exists>idx' usrID fileNameID kindID.
           visitor c idx = Inr (CXChildVisit_Recurse, idx') \<and>
           schema idx' = schema emptyIndex \<and>
           tableRows idx' ''ref'' = tableRows idx ''ref'' @
             [[usrID, fileNameID, unat (locationLine c), unat (locationColumn c), kindID]] \<and>
           tableRows idx' ''loc'' = tableRows idx ''loc'' @
             [[fileNameID, unat (locationLine c), unat (locationColumn c), usrID]] \<and>
           usrID < length (stringsOf idx' ''usr'') \<and>
           stringsOf idx' ''usr'' ! usrID = usr \<and>
           fileNameID < length (stringsOf idx' ''path'') \<and>
           stringsOf idx' ''path'' ! fileNameID = nullToBlank (locationFile c) \<and>
           kindID < length (stringsOf idx' ''kind'') \<and>
           stringsOf idx' ''kind'' ! kindID = nullToBlank (kindSpelling c)"
proof -
  from schema_emptyIndexD[OF assms(1)] assms(2)
  obtain p k u rr lr where idx: "idx = perFileIndex p k u rr lr False" by metis
  show ?thesis
    by (simp add: idx visitor_perFileIndex[OF assms(3,4)] st_insert_lookup schema_perFileIndex)
qed

subsection \<open>The traversal and indexSourceFile\<close>

lemma visitor_Recurse: "visitor d idx = Inr (r, idx') \<Longrightarrow> r = CXChildVisit_Recurse"
  by (auto simp: visitor_def bindE_def Let_def
      split: option.splits if_splits sum.splits prod.splits)

lemma visitor_usrNotNull: "visitor d idx = Inr x \<Longrightarrow> usrNotNull d"
  by (auto simp: visitor_def usrNotNull_def split: option.splits)

lemma visitAll_append:
  "visitAll (xs @ ys) idx = (case visitAll xs idx of Inl e \<Rightarrow> Inl e | Inr idx' \<Rightarrow> visitAll ys idx')"
  by (induction xs arbitrary: idx) (auto split: sum.splits)

lemma visit_preorder:
  "clang_visitChildren visitor cs idx =
     (case visitAll (preorder cs) idx of Inl e \<Rightarrow> Inl e | Inr idx' \<Rightarrow> Inr (False, idx'))"
  "visitCursor visitor c idx =
     (case visitAll (preorderCursor c) idx of Inl e \<Rightarrow> Inl e | Inr idx' \<Rightarrow> Inr (False, idx'))"
proof (induction visitor cs idx and visitor c idx rule: clang_visitChildren_visitCursor.induct)
  case (1 s)
  show ?case by simp
next
  case (2 c cs s)
  show ?case
    by (simp add: 2 visitAll_append split: sum.splits)
next
  case (3 d children s)
  show ?case
  proof (cases "visitor d s")
    case (Inl e)
    then show ?thesis by simp
  next
    case (Inr x)
    obtain r s' where x: "x = (r, s')" by (cases x)
    with Inr visitor_Recurse have r: "r = CXChildVisit_Recurse" by blast
    show ?thesis using Inr x r 3 by simp
  qed
qed

lemma traced_preorder:
  "clang_visitChildren tracedVisitor cs s =
     (case visitAll (preorder cs) (fst s) of
        Inl e \<Rightarrow> Inl e
      | Inr idx' \<Rightarrow> Inr (False, idx', snd s @ preorder cs))"
  "visitCursor tracedVisitor c s =
     (case visitAll (preorderCursor c) (fst s) of
        Inl e \<Rightarrow> Inl e
      | Inr idx' \<Rightarrow> Inr (False, idx', snd s @ preorderCursor c))"
proof (induction tracedVisitor cs s and tracedVisitor c s
    rule: clang_visitChildren_visitCursor.induct)
  case (1 s)
  show ?case by simp
next
  case (2 c cs s)
  show ?case
    by (simp add: 2 visitAll_append split: sum.splits)
next
  case (3 d children s)
  show ?case
  proof (cases "visitor d (fst s)")
    case (Inl e)
    then show ?thesis by (simp add: tracedVisitor_def)
  next
    case (Inr x)
    obtain r idx' where x: "x = (r, idx')" by (cases x)
    with Inr visitor_Recurse have r: "r = CXChildVisit_Recurse" by blast
    have tv: "tracedVisitor d s = Inr (CXChildVisit_Recurse, idx', snd s @ [d])"
      using Inr x r by (simp add: tracedVisitor_def)
    show ?thesis using Inr x r tv 3 by (simp split: sum.splits)
  qed
qed

lemma visitor_no_identifier:
  "resolvedUSR d = Some [] \<Longrightarrow> visitor d idx = Inr (CXChildVisit_Recurse, idx)"
  by (simp add: visitor_def)

lemma visitAll_perFileIndex:
  assumes "list_all usrNotNull ds"
  shows "\<exists>p' k' u' rr'.
           visitAll ds (perFileIndex p k u rr lr False) =
             Inr (perFileIndex p' k' u' (rr @ rr') (lr @ map refToLoc rr') False) \<and>
           length rr' = length (filter hasIdentifier ds) \<and>
           list_all (\<lambda>r. length r = 5) rr'"
  using assms
proof (induction ds arbitrary: p k u rr lr)
  case Nil
  show ?case
    by (rule exI[of _ p], rule exI[of _ k], rule exI[of _ u], rule exI[of _ "[]"]) simp
next
  case (Cons d ds)
  from Cons.prems have d: "usrNotNull d" and ds: "list_all usrNotNull ds"
    by simp_all
  from d obtain usr where usr: "resolvedUSR d = Some usr"
    by (auto simp: usrNotNull_def)
  show ?case
  proof (cases "usr = []")
    case True
    with usr have "visitor d (perFileIndex p k u rr lr False) =
        Inr (CXChildVisit_Recurse, perFileIndex p k u rr lr False)"
      by (simp add: visitor_no_identifier)
    moreover have "\<not> hasIdentifier d" using usr True by (simp add: hasIdentifier_def)
    ultimately show ?thesis using Cons.IH[OF ds, of p k u rr lr] by simp
  next
    case False
    let ?row = "[fst (st_insert usr u), fst (st_insert (nullToBlank (locationFile d)) p),
                 unat (locationLine d), unat (locationColumn d),
                 fst (st_insert (nullToBlank (kindSpelling d)) k)]"
    have h: "hasIdentifier d" using usr False by (simp add: hasIdentifier_def)
    from Cons.IH[OF ds, of "snd (st_insert (nullToBlank (locationFile d)) p)"
        "snd (st_insert (nullToBlank (kindSpelling d)) k)" "snd (st_insert usr u)"
        "rr @ [?row]" "lr @ [refToLoc ?row]"]
    obtain p' k' u' rr' where
      1: "visitAll ds (perFileIndex (snd (st_insert (nullToBlank (locationFile d)) p))
            (snd (st_insert (nullToBlank (kindSpelling d)) k)) (snd (st_insert usr u))
            (rr @ [?row]) (lr @ [refToLoc ?row]) False) =
          Inr (perFileIndex p' k' u' ((rr @ [?row]) @ rr') ((lr @ [refToLoc ?row]) @ map refToLoc rr') False)"
      and 2: "length rr' = length (filter hasIdentifier ds)"
      and 3: "list_all (\<lambda>r. length r = 5) rr'"
      by blast
    have "visitAll (d # ds) (perFileIndex p k u rr lr False) =
        Inr (perFileIndex p' k' u' (rr @ (?row # rr')) (lr @ map refToLoc (?row # rr')) False)"
      using 1 by (simp add: visitor_perFileIndex[OF usr False] refToLoc_def)
    moreover have "length (?row # rr') = length (filter hasIdentifier (d # ds))"
      using 2 h by simp
    moreover have "list_all (\<lambda>r. length r = 5) (?row # rr')" using 3 by simp
    ultimately show ?thesis by blast
  qed
qed

lemma visitAll_usrNotNull: "visitAll ds idx = Inr idx' \<Longrightarrow> list_all usrNotNull ds"
proof (induction ds arbitrary: idx)
  case Nil
  show ?case by simp
next
  case (Cons d ds)
  then show ?case
    by (auto split: sum.splits dest: visitor_usrNotNull)
qed

lemma indexSourceFile_parsed:
  assumes "parseTU (path sfi) (compilerArgs sfi) = Some tu"
  shows "indexSourceFile parseTU sfi =
     (case visitAll (preorder tu) emptyIndex of
        Inl e \<Rightarrow> Inl e
      | Inr idx \<Rightarrow> Inr (setReadOnly idx))"
  using assms
  by (simp add: indexSourceFile_def newIndex_eq bindE_def visit_preorder split: sum.splits)

lemma indexSourceFile_failed:
  assumes "parseTU (path sfi) (compilerArgs sfi) = None"
  shows "indexSourceFile parseTU sfi = Inr emptyIndex"
  using assms by (simp add: indexSourceFile_def newIndex_eq)

lemma setReadOnly_perFileIndex [simp]:
  "setReadOnly (perFileIndex p k u rr lr ro) = perFileIndex p k u rr lr True"
  by (simp add: setReadOnly_def perFileIndex_def)

lemma indexSourceFile_perFileIndex:
  assumes "indexSourceFile parseTU sfi = Inr idx"
  shows "\<exists>p k u rr ro. idx = perFileIndex p k u rr (map refToLoc rr) ro \<and>
           list_all (\<lambda>r. length r = 5) rr \<and>
           (\<forall>tu. parseTU (path sfi) (compilerArgs sfi) = Some tu \<longrightarrow>
              length rr = length (filter hasIdentifier (preorder tu)))"
proof (cases "parseTU (path sfi) (compilerArgs sfi)")
  case None
  with assms have "idx = perFileIndex [] [] [] [] (map refToLoc []) False"
    by (simp add: indexSourceFile_failed emptyIndex_perFileIndex)
  with None show ?thesis
    by (intro exI[of _ "[]"] exI[of _ False]) simp
next
  case (Some tu)
  from assms obtain idx0 where v: "visitAll (preorder tu) emptyIndex = Inr idx0"
    and idx: "idx = setReadOnly idx0"
    by (auto simp: indexSourceFile_parsed[where parseTU = parseTU and sfi = sfi, OF Some] split: sum.splits)
  from visitAll_perFileIndex[OF visitAll_usrNotNull[OF v], of "[]" "[]" "[]" "[]" "[]"] v
  obtain p' k' u' rr' where "idx0 = perFileIndex p' k' u' rr' (map refToLoc rr') False"
    and "length rr' = length (filter hasIdentifier (preorder tu))"
    and "list_all (\<lambda>r. length r = 5) rr'"
    by (auto simp: emptyIndex_perFileIndex)
  with idx Some show ?thesis
    by (intro exI[of _ p'] exI[of _ k'] exI[of _ u'] exI[of _ rr'] exI[of _ True]) simp
qed

text \<open>
  Claim C7. Extraction calls the visitor on every cursor of the translation unit, depth
  first and parents first, and prunes nothing: the log of the traversal is the full
  pre-order list of the cursors. When \<open>K\<close> of them have a non-empty resolved
  identifier, the per-file Index has exactly \<open>K\<close> rows in ref and \<open>K\<close> rows in
  loc. (The assertion of line 50 is assumed to hold: no USR string is NULL.)
\<close>
theorem extraction_visits_every_node:
  assumes "parseTU (path sfi) (compilerArgs sfi) = Some tu"
    and "list_all usrNotNull (preorder tu)"
  shows "\<exists>idx. clang_visitChildren tracedVisitor tu (emptyIndex, []) = Inr (False, idx, preorder tu) \<and>
           indexSourceFile parseTU sfi = Inr (setReadOnly idx) \<and>
           length (tableRows (setReadOnly idx) ''ref'') = length (filter hasIdentifier (preorder tu)) \<and>
           length (tableRows (setReadOnly idx) ''loc'') = length (filter hasIdentifier (preorder tu))"
proof -
  from visitAll_perFileIndex[OF assms(2), of "[]" "[]" "[]" "[]" "[]"]
  obtain p k u rr where v: "visitAll (preorder tu) emptyIndex = Inr (perFileIndex p k u rr (map refToLoc rr) False)"
    and n: "length rr = length (filter hasIdentifier (preorder tu))"
    by (auto simp: emptyIndex_perFileIndex)
  show ?thesis
    by (rule exI[of _ "perFileIndex p k u rr (map refToLoc rr) False"])
       (simp add: traced_preorder v indexSourceFile_parsed[where parseTU = parseTU and sfi = sfi, OF assms(1)] n)
qed

text \<open>
  Claim C10. In every per-file Index that extraction returns, the ref table and the loc
  table have as many rows, and the i-th rows of both carry the same usr ID, the same
  file ID, the same line and the same column.
\<close>
theorem ref_and_loc_rows_aligned:
  assumes "indexSourceFile parseTU sfi = Inr idx"
  shows "length (tableRows idx ''ref'') = length (tableRows idx ''loc'') \<and>
         (\<forall>i < length (tableRows idx ''ref'').
            tableRows idx ''ref'' ! i ! 0 = tableRows idx ''loc'' ! i ! 3 \<and>
            tableRows idx ''ref'' ! i ! 1 = tableRows idx ''loc'' ! i ! 0 \<and>
            tableRows idx ''ref'' ! i ! 2 = tableRows idx ''loc'' ! i ! 1 \<and>
            tableRows idx ''ref'' ! i ! 3 = tableRows idx ''loc'' ! i ! 2)"
proof -
  from indexSourceFile_perFileIndex[OF assms]
  obtain p k u rr ro where idx: "idx = perFileIndex p k u rr (map refToLoc rr) ro" by blast
  show ?thesis by (simp add: idx refToLoc_def)
qed

lemma resolveCell_perFileIndex [simp]:
  "resolveCell (perFileIndex p k u rr lr ro) [] v = Some (Raw v)"
  "resolveCell (perFileIndex p k u rr lr ro) ''path'' v = (if v < length p then Some (Str (p ! v)) else None)"
  "resolveCell (perFileIndex p k u rr lr ro) ''kind'' v = (if v < length k then Some (Str (k ! v)) else None)"
  "resolveCell (perFileIndex p k u rr lr ro) ''usr'' v = (if v < length u then Some (Str (u ! v)) else None)"
  by (simp_all add: resolveCell_def perFileIndex_def)

text \<open>
  Claim C8. The facts that the visitor emits for a cursor carry the identifier of the
  declaration the cursor refers to, whatever the cursor's own USR is; when the cursor
  refers to no declaration they carry the cursor's own USR.
\<close>
theorem visitor_uses_referenced_identifier:
  assumes "schema idx = schema emptyIndex" and "\<not> readonly idx" and "usr \<noteq> []"
    and "cursorReferenced c = Some (Some usr) \<or> cursorReferenced c = None \<and> cursorUSR c = Some usr"
  shows "\<exists>idx'. visitor c idx = Inr (CXChildVisit_Recurse, idx') \<and>
           length (tableRows idx' ''ref'') = Suc (length (tableRows idx ''ref'')) \<and>
           length (tableRows idx' ''loc'') = Suc (length (tableRows idx ''loc'')) \<and>
           resolveRow idx' refColumns (last (tableRows idx' ''ref'')) =
             [Some (Str usr), Some (Str (nullToBlank (locationFile c))),
              Some (Raw (unat (locationLine c))), Some (Raw (unat (locationColumn c))),
              Some (Str (nullToBlank (kindSpelling c)))] \<and>
           resolveRow idx' locColumns (last (tableRows idx' ''loc'')) =
             [Some (Str (nullToBlank (locationFile c))),
              Some (Raw (unat (locationLine c))), Some (Raw (unat (locationColumn c))),
              Some (Str usr)]"
proof -
  from assms(4) have r: "resolvedUSR c = Some usr"
    by (auto simp: resolvedUSR_def)
  from schema_emptyIndexD[OF assms(1)] assms(2)
  obtain p k u rr lr where idx: "idx = perFileIndex p k u rr lr False" by metis
  show ?thesis
    by (simp add: idx visitor_perFileIndex[OF r assms(3)] st_insert_lookup resolveRow_def
        refColumns_def locColumns_def)
qed

subsection \<open>The worker pool, readSourcesJson and main\<close>


lemma runTask_length [simp]: "length (runTask task j fs) = length fs"
  by (simp add: runTask_def)

lemma fold_runTask_length [simp]: "length (fold (runTask task) sched fs) = length fs"
  by (induction sched arbitrary: fs) simp_all

lemma fold_runTask_nth:
  "i < length fs \<Longrightarrow>
   fold (runTask task) sched fs ! i = (if i \<in> set sched then Some (task i) else fs ! i)"
proof (induction sched arbitrary: fs)
  case Nil
  show ?case by simp
next
  case (Cons j sched)
  have "i < length (runTask task j fs)" using Cons.prems by simp
  from Cons.IH[OF this] Cons.prems show ?case
    by (auto simp: runTask_def nth_list_update)
qed

lemma futureResult_threadPool:
  assumes "mset sched = mset [0..<n]"
  shows "futureResult (threadPool sched n task) i = (if i < n then Some (task i) else None)"
proof -
  from assms have "set sched = {0..<n}"
    by (metis mset_eq_setD set_upt)
  then show ?thesis
    by (simp add: futureResult_def threadPool_def fold_runTask_nth)
qed

lemma dispatchLoop_mapE:
  "dispatchLoop js (sfis, tr) =
     (case mapE readSourceFileInfo js of
        Inl e \<Rightarrow> Inl e
      | Inr new \<Rightarrow> Inr (sfis @ new, tr @ map Submitted [length sfis..<length sfis + length new]))"
proof (induction js arbitrary: sfis tr)
  case Nil
  show ?case by simp
next
  case (Cons j js)
  have u: "\<And>n m. [n..<n + Suc m] = n # [Suc n..<Suc n + m]"
  proof -
    fix n m :: nat
    show "[n..<n + Suc m] = n # [Suc n..<Suc n + m]"
      using upt_conv_Cons[of n "n + Suc m"] by (simp del: upt_Suc)
  qed
  show ?case
  proof (cases "readSourceFileInfo j")
    case (Inl e)
    then show ?thesis by simp
  next
    case sfi: (Inr sfi)
    show ?thesis
    proof (cases "mapE readSourceFileInfo js")
      case (Inl e)
      with sfi show ?thesis by (simp add: Cons)
    next
      case (Inr new)
      with sfi show ?thesis
        using u[of "length sfis" "length new"] by (simp add: Cons del: upt_Suc)
    qed
  qed
qed

lemma mapE_length: "mapE f xs = Inr ys \<Longrightarrow> length ys = length xs"
  by (induction xs arbitrary: ys) (auto split: sum.splits)

lemma mergeLoop_Inr:
  assumes "mergeLoop fut ps i (index, tr) = Inr (index', tr')"
  shows "\<exists>fis. map fut [i..<i + length ps] = map (\<lambda>fi. Some (Inr fi)) fis \<and>
           mergeAll index fis = Inr index' \<and>
           tr' = tr @ concat (map consumed (enumerate i ps))"
  using assms
proof (induction ps arbitrary: i index tr)
  case Nil
  then show ?case by (simp add: exI[of _ "[]"])
next
  case (Cons p ps)
  from Cons.prems obtain fi index1 where f: "fut i = Some (Inr fi)"
    and m: "merge index fi = Inr index1"
    and rest: "mergeLoop fut ps (Suc i) (index1, tr @ [Printed p, Awaited i, Merged i, Deleted i]) =
                 Inr (index', tr')"
    by (auto split: option.splits sum.splits)
  from Cons.IH[OF rest] obtain fis where
    1: "map fut [Suc i..<Suc i + length ps] = map (\<lambda>fi. Some (Inr fi)) fis"
    and 2: "mergeAll index1 fis = Inr index'"
    and 3: "tr' = (tr @ [Printed p, Awaited i, Merged i, Deleted i]) @ concat (map consumed (enumerate (Suc i) ps))"
    by blast
  have u: "[i..<i + length (p # ps)] = i # [Suc i..<Suc i + length ps]"
    using upt_conv_Cons[of i "i + length (p # ps)"] by (simp del: upt_Suc)
  have "map fut [i..<i + length (p # ps)] = map (\<lambda>fi. Some (Inr fi)) (fi # fis)"
    unfolding u using 1 f by simp
  moreover have "mergeAll index (fi # fis) = Inr index'" using m 2 by simp
  moreover have "tr' = tr @ concat (map consumed (enumerate i (p # ps)))"
    using 3 by (simp add: consumed_def)
  ultimately show ?case by blast
qed

lemma readSourcesJson_sched:
  assumes "mset sched = mset [0..<length (elements json)]"
  shows "readSourcesJson parseTU sched json index =
     (case mapE readSourceFileInfo (elements json) of
        Inl e \<Rightarrow> Inl (Aborted e)
      | Inr sfis \<Rightarrow>
          mergeLoop (\<lambda>i. if i < length sfis then Some (indexSourceFile parseTU (sfis ! i)) else None)
            (map path sfis) 0 (index, map Submitted [0..<length sfis]))"
proof (cases "mapE readSourceFileInfo (elements json)")
  case (Inl e)
  then show ?thesis
    by (simp add: readSourcesJson_def dispatchLoop_mapE)
next
  case (Inr sfis)
  with assms have s: "mset sched = mset [0..<length sfis]"
    by (simp add: mapE_length)
  have "futureResult (threadPool sched (length sfis) (\<lambda>i. indexSourceFile parseTU (sfis ! i))) =
        (\<lambda>i. if i < length sfis then Some (indexSourceFile parseTU (sfis ! i)) else None)"
    by (rule ext) (simp add: futureResult_threadPool[OF s])
  with Inr show ?thesis
    by (simp add: readSourcesJson_def dispatchLoop_mapE)
qed

text \<open>
  Claim C6. With a pool that runs every task once, in whatever order \<open>sched\<close>, a run
  of \<^verbatim>\<open>readSourcesJson\<close> that returns has submitted the tasks in the order of the
  descriptor and then, for each \<open>i\<close> in that order, has printed the path, awaited
  the result of task \<open>i\<close>, merged it into the global Index and deleted it, before
  it awaits task \<open>i + 1\<close>; the global Index is the result of merging the per-file
  Indexes in the order of the descriptor, and any other order of running the tasks
  gives the same Index and the same events.
\<close>
theorem results_consumed_in_submission_order:
  assumes "mset sched = mset [0..<length (elements json)]"
    and "readSourcesJson parseTU sched json index = Inr (index', tr)"
  shows "\<exists>sfis fileIndexes.
           mapE readSourceFileInfo (elements json) = Inr sfis \<and>
           map (indexSourceFile parseTU) sfis = map Inr fileIndexes \<and>
           mergeAll index fileIndexes = Inr index' \<and>
           tr = map Submitted [0..<length sfis] @ concat (map consumed (enumerate 0 (map path sfis))) \<and>
           (\<forall>sched'. mset sched' = mset sched \<longrightarrow>
              readSourcesJson parseTU sched' json index = Inr (index', tr))"
proof -
  from assms(2) obtain sfis where sfis: "mapE readSourceFileInfo (elements json) = Inr sfis"
    by (auto simp: readSourcesJson_sched[OF assms(1)] split: sum.splits)
  let ?fut = "\<lambda>i. if i < length sfis then Some (indexSourceFile parseTU (sfis ! i)) else None"
  from assms(2) sfis have ml: "mergeLoop ?fut (map path sfis) 0 (index, map Submitted [0..<length sfis]) =
      Inr (index', tr)"
    by (simp add: readSourcesJson_sched[OF assms(1)])
  from mergeLoop_Inr[OF ml] obtain fis where
    1: "map ?fut [0..<length sfis] = map (\<lambda>fi. Some (Inr fi)) fis"
    and 2: "mergeAll index fis = Inr index'"
    and 3: "tr = map Submitted [0..<length sfis] @ concat (map consumed (enumerate 0 (map path sfis)))"
    by auto
  from arg_cong[OF 1, of length] have len: "length fis = length sfis"
    by simp
  have 4: "map (indexSourceFile parseTU) sfis = map Inr fis"
  proof (rule nth_equalityI)
    show "length (map (indexSourceFile parseTU) sfis) = length (map Inr fis)" using len by simp
  next
    fix i assume "i < length (map (indexSourceFile parseTU) sfis)"
    then have i: "i < length sfis" by simp
    from 1 have "map ?fut [0..<length sfis] ! i = map (\<lambda>fi. Some (Inr fi)) fis ! i" by simp
    with i len show "map (indexSourceFile parseTU) sfis ! i = map Inr fis ! i" by simp
  qed
  have 5: "\<forall>sched'. mset sched' = mset sched \<longrightarrow>
              readSourcesJson parseTU sched' json index = Inr (index', tr)"
  proof (intro allI impI)
    fix sched' assume "mset sched' = mset sched"
    with assms(1) have s': "mset sched' = mset [0..<length (elements json)]" by simp
    show "readSourcesJson parseTU sched' json index = Inr (index', tr)"
      by (simp add: readSourcesJson_sched[OF s'] sfis ml)
  qed
  from sfis 4 2 3 5 show ?thesis
    by (intro exI[of _ sfis] exI[of _ fis] conjI)
qed


lemma indexSourceFile_returns:
  assumes "\<forall>tu. parseTU (path sfi) (compilerArgs sfi) = Some tu \<longrightarrow> list_all usrNotNull (preorder tu)"
  shows "\<exists>idx. indexSourceFile parseTU sfi = Inr idx"
proof (cases "parseTU (path sfi) (compilerArgs sfi)")
  case None
  then show ?thesis by (simp add: indexSourceFile_failed)
next
  case (Some tu)
  with assms have "list_all usrNotNull (preorder tu)" by simp
  from visitAll_perFileIndex[OF this, of "[]" "[]" "[]" "[]" "[]"]
  obtain idx0 where "visitAll (preorder tu) emptyIndex = Inr idx0"
    by (auto simp: emptyIndex_perFileIndex)
  then show ?thesis
    by (simp add: indexSourceFile_parsed[where parseTU = parseTU and sfi = sfi, OF Some])
qed


text \<open>
  Claim C1 says that the Index saved by main has the StringTables path, kind, usr and
  the Tables ref, loc registered. On the code it has not: main creates the global
  Index with the bare constructor (line 242), not with \<^verbatim>\<open>newIndex()\<close>. At a
  descriptor that lists no file no merge runs at all: main returns 0 and the saved
  Index is the bare Index made read-only, with no StringTable and no Table, so its
  schema is not the one of \<^verbatim>\<open>newIndex()\<close>.
\<close>
theorem main_saves_index_without_tables:
  assumes "elements (parseDescriptor descriptor) = []"
  shows "\<exists>r. main parseTU sched descriptor = Inr r \<and>
           exitCode r = 0 \<and> events r = [] \<and> savedIndex r = setReadOnly Index_new \<and>
           stringTables (savedIndex r) = [] \<and> tables (savedIndex r) = [] \<and>
           schema (savedIndex r) \<noteq> schema emptyIndex"
  using assms
  by (simp add: main_def readSourcesJson_def setReadOnly_def Index_new_def schema_def
      emptyIndex_def)

text \<open>
  Claim C2, as amended: when the descriptor cannot be read, or its root is not an
  array or an object (so that it lists no file), no extraction task is dispatched and
  nothing is merged, and main still saves the global Index, without facts, and
  returns 0.
\<close>
theorem unreadable_descriptor_exits_zero:
  assumes "elements (parseDescriptor descriptor) = []"
  shows "main parseTU sched descriptor =
           Inr \<lparr>exitCode = 0, savedIndex = setReadOnly Index_new, events = []\<rparr>"
  using assms by (simp add: main_def readSourcesJson_def)

text \<open>
  Claim C5 says that every Index of the program has the same schema. Every per-file
  Index has the schema that \<^verbatim>\<open>newIndex()\<close> registers, on the parse-failure path as
  on the success path; the global Index, which main creates by the bare constructor
  (\<open>Index_new\<close>, line 242), has another one before any merge: no table at all.
\<close>
theorem per_file_schema_and_global_schema:
  assumes "indexSourceFile parseTU sfi = Inr idx"
  shows "schema idx = schema emptyIndex \<and> schema Index_new \<noteq> schema idx"
proof -
  from indexSourceFile_perFileIndex[OF assms]
  obtain p k u rr ro where "idx = perFileIndex p k u rr (map refToLoc rr) ro" by blast
  then have "schema idx = schema emptyIndex" by (simp add: schema_perFileIndex)
  then show ?thesis by (simp add: schema_def Index_new_def emptyIndex_def)
qed

subsection \<open>Merging\<close>

lemma mergeStrings_props:
  assumes "mergeStrings ss dst = (ids, dst')"
  shows "(\<exists>ys. dst' = dst @ ys) \<and> length ids = length ss \<and>
         (\<forall>i<length ss. ids ! i < length dst' \<and> dst' ! (ids ! i) = ss ! i) \<and>
         (distinct dst \<longrightarrow> distinct dst')"
  using assms
proof (induction ss arbitrary: dst ids dst')
  case Nil
  then show ?case by simp
next
  case (Cons s ss)
  obtain i dst1 where ins: "st_insert s dst = (i, dst1)" by (cases "st_insert s dst")
  obtain ids2 dst2 where rec: "mergeStrings ss dst1 = (ids2, dst2)" by (cases "mergeStrings ss dst1")
  from Cons.prems ins rec have ids: "ids = i # ids2" and dst': "dst' = dst2" by simp_all
  from st_insert_lookup[of s dst] st_insert_extends[of s dst] ins
  obtain ys1 where i: "i < length dst1" "dst1 ! i = s" and e1: "dst1 = dst @ ys1" by auto
  from Cons.IH[OF rec] obtain ys2 where e2: "dst2 = dst1 @ ys2"
    and len: "length ids2 = length ss"
    and look: "\<forall>j<length ss. ids2 ! j < length dst2 \<and> dst2 ! (ids2 ! j) = ss ! j"
    and dist: "distinct dst1 \<longrightarrow> distinct dst2"
    by blast
  have "\<exists>ys. dst' = dst @ ys" using e1 e2 dst' by simp
  moreover have "length ids = length (s # ss)" using ids len by simp
  moreover have "\<forall>j<length (s # ss). ids ! j < length dst' \<and> dst' ! (ids ! j) = (s # ss) ! j"
  proof (intro allI impI)
    fix j assume j: "j < length (s # ss)"
    show "ids ! j < length dst' \<and> dst' ! (ids ! j) = (s # ss) ! j"
    proof (cases j)
      case 0
      with i e2 ids dst' show ?thesis by (simp add: nth_append)
    next
      case (Suc j')
      with j look ids dst' show ?thesis by simp
    qed
  qed
  moreover have "distinct dst \<longrightarrow> distinct dst'"
    using dist st_insert_distinct[of dst s] ins dst' by auto
  ultimately show ?case by blast
qed

lemma translateRow_linked:
  assumes "validRow src cols r" and "\<forall>c\<in>set cols. linked src d m c"
  shows "translateRow m cols r = Inr (trRow m cols r) \<and>
         length (trRow m cols r) = length cols \<and>
         resolveRow d cols (trRow m cols r) = resolveRow src cols r \<and>
         validRow d cols (trRow m cols r)"
proof -
  from assms(1) have len: "length cols = length r"
    and v: "list_all (validCell src) (zip cols r)"
    by (simp_all add: validRow_def)
  from len v assms(2) show ?thesis
  proof (induction cols r rule: list_induct2)
    case Nil
    show ?case by (simp add: trRow_def resolveRow_def validRow_def)
  next
    case (Cons c cols x r)
    from Cons.prems have vc: "validCell src (c, x)" and vr: "list_all (validCell src) (zip cols r)"
      and lc: "linked src d m c" and lr: "\<forall>c\<in>set cols. linked src d m c"
      by simp_all
    from Cons.IH[OF vr lr] have ih: "translateRow m cols r = Inr (trRow m cols r)"
      "length (trRow m cols r) = length cols"
      "resolveRow d cols (trRow m cols r) = resolveRow src cols r"
      "validRow d cols (trRow m cols r)" by simp_all
    define x' where "x' = (if c = [] then x else the (m c) ! x)"
    have cell: "translateCell m c x = Inr x' \<and>
          resolveCell d c x' = resolveCell src c x \<and> validCell d (c, x')"
    proof (cases "c = []")
      case True
      then show ?thesis by (simp add: translateCell_def resolveCell_def validCell_def x'_def)
    next
      case False
      with lc obtain ids ss ds where m: "m c = Some ids" and s: "map_of (stringTables src) c = Some ss"
        and dd: "map_of (stringTables d) c = Some ds" and l: "length ids = length ss"
        and look: "\<forall>v<length ss. ids ! v < length ds \<and> ds ! (ids ! v) = ss ! v"
        by (auto simp: linked_def)
      from vc False s have x: "x < length ss" by (simp add: validCell_def)
      with look have "ids ! x < length ds" "ds ! (ids ! x) = ss ! x" by simp_all
      with False m s dd l x show ?thesis
        by (simp add: translateCell_def resolveCell_def validCell_def x'_def)
    qed
    have tr: "trRow m (c # cols) (x # r) = x' # trRow m cols r"
      by (simp add: trRow_def x'_def)
    from cell ih show ?case
      unfolding tr by (simp add: resolveRow_def validRow_def)
  qed
qed

lemma resolveRow_extended:
  assumes "validRow dst cols r" and "\<forall>c\<in>set cols. extended dst d c"
  shows "resolveRow d cols r = resolveRow dst cols r \<and> validRow d cols r"
proof -
  from assms(1) have len: "length cols = length r"
    and v: "list_all (validCell dst) (zip cols r)"
    by (simp_all add: validRow_def)
  from len v assms(2) show ?thesis
  proof (induction cols r rule: list_induct2)
    case Nil
    show ?case by (simp add: resolveRow_def validRow_def)
  next
    case (Cons c cols x r)
    from Cons.prems have vc: "validCell dst (c, x)" and vr: "list_all (validCell dst) (zip cols r)"
      and lc: "extended dst d c" and lr: "\<forall>c\<in>set cols. extended dst d c"
      by simp_all
    from Cons.IH[OF vr lr] have ih: "resolveRow d cols r = resolveRow dst cols r"
      "validRow d cols r" by simp_all
    have cell: "resolveCell d c x = resolveCell dst c x \<and> validCell d (c, x)"
    proof (cases "c = []")
      case True
      then show ?thesis by (simp add: resolveCell_def validCell_def)
    next
      case False
      with vc obtain ds where ds: "map_of (stringTables dst) c = Some ds" and x: "x < length ds"
        by (auto simp: validCell_def split: option.splits)
      with lc False obtain ys where "map_of (stringTables d) c = Some (ds @ ys)"
        by (auto simp: extended_def)
      with False ds x show ?thesis
        by (simp add: resolveCell_def validCell_def nth_append)
    qed
    from cell ih show ?case
      by (simp add: resolveRow_def validRow_def)
  qed
qed

lemma mergeRows_ok:
  assumes "\<forall>r\<in>set rs. translateRow m cols r = Inr (f r) \<and> length (f r) = length (columnNames dstT)"
  shows "mergeRows m cols rs dstT = Inr (dstT\<lparr>rows := rows dstT @ map f rs\<rparr>)"
  using assms
proof (induction rs arbitrary: dstT)
  case Nil
  show ?case by simp
next
  case (Cons r rs)
  from Cons.prems have r: "translateRow m cols r = Inr (f r)" "length (f r) = length (columnNames dstT)"
    and rs: "\<forall>r'\<in>set rs. translateRow m cols r' = Inr (f r') \<and>
               length (f r') = length (columnNames (dstT\<lparr>rows := rows dstT @ [f r]\<rparr>))"
    by simp_all
  from Cons.IH[OF rs] r show ?case by simp
qed

lemma stringTables_perFileIndex [simp]:
  "stringTables (perFileIndex p k u rr lr ro) = [(''path'', p), (''kind'', k), (''usr'', u)]"
  by (simp add: perFileIndex_def)

lemma tables_perFileIndex [simp]:
  "tables (perFileIndex p k u rr lr ro) =
     [(''ref'', \<lparr>columnNames = refColumns, rows = rr\<rparr>),
      (''loc'', \<lparr>columnNames = locColumns, rows = lr\<rparr>)]"
  by (simp add: perFileIndex_def)

lemma valid_perFileIndex:
  "valid (perFileIndex p k u rr lr ro) \<longleftrightarrow>
     distinct p \<and> distinct k \<and> distinct u \<and>
     list_all (validRow (perFileIndex p k u rr lr ro) refColumns) rr \<and>
     list_all (validRow (perFileIndex p k u rr lr ro) locColumns) lr"
  by (auto simp: valid_def)

lemma logical_perFileIndex:
  "logical (perFileIndex p k u rr lr ro) n =
     (if n = ''ref'' then set (map (resolveRow (perFileIndex p k u rr lr ro) refColumns) rr)
      else if n = ''loc'' then set (map (resolveRow (perFileIndex p k u rr lr ro) locColumns) lr)
      else {})"
  by (simp add: logical_def resolvedRows_def)

lemma merge_perFileIndex:
  assumes vd: "valid (perFileIndex p k u rr lr False)"
    and vs: "valid (perFileIndex p2 k2 u2 rr2 lr2 ro)"
  shows "\<exists>p' k' u' rr' lr'.
           merge (perFileIndex p k u rr lr False) (perFileIndex p2 k2 u2 rr2 lr2 ro) =
             Inr (perFileIndex p' k' u' rr' lr' False) \<and>
           valid (perFileIndex p' k' u' rr' lr' False) \<and>
           (\<forall>n. logical (perFileIndex p' k' u' rr' lr' False) n =
                  logical (perFileIndex p k u rr lr False) n \<union>
                  logical (perFileIndex p2 k2 u2 rr2 lr2 ro) n)"
proof -
  let ?dst = "perFileIndex p k u rr lr False"
  let ?src = "perFileIndex p2 k2 u2 rr2 lr2 ro"
  define m where "m = translationMap ?dst ?src"
  define p' where "p' = snd (mergeStrings p2 p)"
  define k' where "k' = snd (mergeStrings k2 k)"
  define u' where "u' = snd (mergeStrings u2 u)"
  define rr' where "rr' = rr @ map (trRow m refColumns) rr2"
  define lr' where "lr' = lr @ map (trRow m locColumns) lr2"
  let ?d = "perFileIndex p' k' u' rr' lr' False"
  have mp: "m ''path'' = Some (fst (mergeStrings p2 p))"
    and mk: "m ''kind'' = Some (fst (mergeStrings k2 k))"
    and mu: "m ''usr'' = Some (fst (mergeStrings u2 u))"
    by (simp_all add: m_def translationMap_def)
  note P = mergeStrings_props[OF surjective_pairing[of "mergeStrings p2 p"]]
  note K = mergeStrings_props[OF surjective_pairing[of "mergeStrings k2 k"]]
  note U = mergeStrings_props[OF surjective_pairing[of "mergeStrings u2 u"]]
  have lp: "linked ?src ?d m ''path''" using P mp by (simp add: linked_def p'_def)
  have lk: "linked ?src ?d m ''kind''" using K mk by (simp add: linked_def k'_def)
  have lu: "linked ?src ?d m ''usr''" using U mu by (simp add: linked_def u'_def)
  have l0: "linked ?src ?d m []" by (simp add: linked_def)
  have lref: "\<forall>c\<in>set refColumns. linked ?src ?d m c"
    using lp lk lu l0 by (simp add: refColumns_def)
  have lloc: "\<forall>c\<in>set locColumns. linked ?src ?d m c"
    using lp lk lu l0 by (simp add: locColumns_def)
  have ep: "extended ?dst ?d ''path''" using P by (auto simp: extended_def p'_def)
  have ek: "extended ?dst ?d ''kind''" using K by (auto simp: extended_def k'_def)
  have eu: "extended ?dst ?d ''usr''" using U by (auto simp: extended_def u'_def)
  have e0: "extended ?dst ?d []" by (simp add: extended_def)
  have eref: "\<forall>c\<in>set refColumns. extended ?dst ?d c"
    using ep ek eu e0 by (simp add: refColumns_def)
  have eloc: "\<forall>c\<in>set locColumns. extended ?dst ?d c"
    using ep ek eu e0 by (simp add: locColumns_def)
  from vs have srcref: "\<forall>r\<in>set rr2. validRow ?src refColumns r"
    and srcloc: "\<forall>r\<in>set lr2. validRow ?src locColumns r"
    by (simp_all add: valid_perFileIndex list_all_iff)
  from vd have dstref: "\<forall>r\<in>set rr. validRow ?dst refColumns r"
    and dstloc: "\<forall>r\<in>set lr. validRow ?dst locColumns r"
    and dd: "distinct p" "distinct k" "distinct u"
    by (simp_all add: valid_perFileIndex list_all_iff)
  have tref: "\<forall>r\<in>set rr2. translateRow m refColumns r = Inr (trRow m refColumns r) \<and>
         length (trRow m refColumns r) = length refColumns \<and>
         resolveRow ?d refColumns (trRow m refColumns r) = resolveRow ?src refColumns r \<and>
         validRow ?d refColumns (trRow m refColumns r)"
    using srcref translateRow_linked[OF _ lref] by blast
  have tloc: "\<forall>r\<in>set lr2. translateRow m locColumns r = Inr (trRow m locColumns r) \<and>
         length (trRow m locColumns r) = length locColumns \<and>
         resolveRow ?d locColumns (trRow m locColumns r) = resolveRow ?src locColumns r \<and>
         validRow ?d locColumns (trRow m locColumns r)"
    using srcloc translateRow_linked[OF _ lloc] by blast
  have oref: "\<forall>r\<in>set rr. resolveRow ?d refColumns r = resolveRow ?dst refColumns r \<and>
         validRow ?d refColumns r"
    using dstref resolveRow_extended[OF _ eref] by blast
  have oloc: "\<forall>r\<in>set lr. resolveRow ?d locColumns r = resolveRow ?dst locColumns r \<and>
         validRow ?d locColumns r"
    using dstloc resolveRow_extended[OF _ eloc] by blast
  have mref: "mergeRows m refColumns rr2 \<lparr>columnNames = refColumns, rows = rr\<rparr> =
        Inr \<lparr>columnNames = refColumns, rows = rr'\<rparr>"
    using mergeRows_ok[of rr2 m refColumns "trRow m refColumns" "\<lparr>columnNames = refColumns, rows = rr\<rparr>"]
      tref by (simp add: rr'_def)
  have mloc: "mergeRows m locColumns lr2 \<lparr>columnNames = locColumns, rows = lr\<rparr> =
        Inr \<lparr>columnNames = locColumns, rows = lr'\<rparr>"
    using mergeRows_ok[of lr2 m locColumns "trRow m locColumns" "\<lparr>columnNames = locColumns, rows = lr\<rparr>"]
      tloc by (simp add: lr'_def)
  have 1: "merge ?dst ?src = Inr ?d"
    using mref mloc
    by (simp add: merge_def schema_perFileIndex bindE_def m_def[symmetric]
        mergeStringTables_def p'_def k'_def u'_def)
  have srr: "set rr' = set rr \<union> trRow m refColumns ` set rr2"
    and slr: "set lr' = set lr \<union> trRow m locColumns ` set lr2"
    by (simp_all add: rr'_def lr'_def)
  have dp: "distinct p'" using P dd by (simp add: p'_def)
  have dk: "distinct k'" using K dd by (simp add: k'_def)
  have du: "distinct u'" using U dd by (simp add: u'_def)
  have vr: "list_all (validRow ?d refColumns) rr'"
    unfolding list_all_iff srr using tref oref by blast
  have vl: "list_all (validRow ?d locColumns) lr'"
    unfolding list_all_iff slr using tloc oloc by blast
  have 2: "valid ?d"
    unfolding valid_perFileIndex using dp dk du vr vl by blast
  have 3: "\<forall>n. logical ?d n = logical ?dst n \<union> logical ?src n"
  proof
    fix n
    have a: "map (resolveRow ?d refColumns) rr = map (resolveRow ?dst refColumns) rr"
      using oref by simp
    have b: "map (resolveRow ?d refColumns) (map (trRow m refColumns) rr2) =
             map (resolveRow ?src refColumns) rr2"
      using tref by simp
    have c: "map (resolveRow ?d locColumns) lr = map (resolveRow ?dst locColumns) lr"
      using oloc by simp
    have d: "map (resolveRow ?d locColumns) (map (trRow m locColumns) lr2) =
             map (resolveRow ?src locColumns) lr2"
      using tloc by simp
    have e: "map (resolveRow ?d refColumns) rr' =
             map (resolveRow ?dst refColumns) rr @ map (resolveRow ?src refColumns) rr2"
      using a b by (simp add: rr'_def)
    have f: "map (resolveRow ?d locColumns) lr' =
             map (resolveRow ?dst locColumns) lr @ map (resolveRow ?src locColumns) lr2"
      using c d by (simp add: lr'_def)
    show "logical ?d n = logical ?dst n \<union> logical ?src n"
      unfolding logical_perFileIndex e f by simp
  qed
  from 1 2 3 show ?thesis by blast
qed


lemma valid_perFileIndex_readonly:
  "valid (perFileIndex p k u rr lr ro) = valid (perFileIndex p k u rr lr ro')"
  by (simp add: valid_perFileIndex list_all_iff validRow_def validCell_def)

lemma merge_perFile:
  assumes "valid dst" and "schema dst = schema emptyIndex" and "\<not> readonly dst"
    and "perFile src"
  shows "\<exists>d. merge dst src = Inr d \<and> valid d \<and> schema d = schema emptyIndex \<and>
           \<not> readonly d \<and> (\<forall>n. logical d n = logical dst n \<union> logical src n)"
proof -
  from schema_emptyIndexD[OF assms(2)] assms(3)
  obtain p k u rr lr where dst: "dst = perFileIndex p k u rr lr False" by metis
  from assms(4) have vs: "valid src" and ss: "schema src = schema emptyIndex"
    by (simp_all add: perFile_def)
  from schema_emptyIndexD[OF ss]
  obtain p2 k2 u2 rr2 lr2 ro where src: "src = perFileIndex p2 k2 u2 rr2 lr2 ro" by metis
  from merge_perFileIndex[OF assms(1)[unfolded dst] vs[unfolded src]]
  obtain p' k' u' rr' lr' where
    m: "merge (perFileIndex p k u rr lr False) (perFileIndex p2 k2 u2 rr2 lr2 ro) =
          Inr (perFileIndex p' k' u' rr' lr' False)"
    and v: "valid (perFileIndex p' k' u' rr' lr' False)"
    and l: "\<forall>n. logical (perFileIndex p' k' u' rr' lr' False) n =
                logical (perFileIndex p k u rr lr False) n \<union>
                logical (perFileIndex p2 k2 u2 rr2 lr2 ro) n"
    by blast
  show ?thesis unfolding dst src
    by (rule exI[of _ "perFileIndex p' k' u' rr' lr' False"])
       (simp add: m v l schema_perFileIndex)
qed

lemma mergeAll_perFile:
  assumes "valid dst" and "schema dst = schema emptyIndex" and "\<not> readonly dst"
    and "list_all perFile srcs"
  shows "\<exists>d. mergeAll dst srcs = Inr d \<and> valid d \<and> schema d = schema emptyIndex \<and>
           \<not> readonly d \<and> (\<forall>n. logical d n = logical dst n \<union> (\<Union>s\<in>set srcs. logical s n))"
  using assms
proof (induction srcs arbitrary: dst)
  case Nil
  then show ?case by simp
next
  case (Cons src srcs)
  from Cons.prems have s: "perFile src" and ss: "list_all perFile srcs" by simp_all
  from merge_perFile[OF Cons.prems(1,2,3) s]
  obtain d1 where m: "merge dst src = Inr d1" and v: "valid d1"
    and sc: "schema d1 = schema emptyIndex" and ro: "\<not> readonly d1"
    and l1: "\<forall>n. logical d1 n = logical dst n \<union> logical src n"
    by blast
  from Cons.IH[OF v sc ro ss]
  obtain d where ma: "mergeAll d1 srcs = Inr d" and vd: "valid d"
    and scd: "schema d = schema emptyIndex" and rod: "\<not> readonly d"
    and l: "\<forall>n. logical d n = logical d1 n \<union> (\<Union>s\<in>set srcs. logical s n)"
    by blast
  have "mergeAll dst (src # srcs) = Inr d" using m ma by simp
  moreover have "\<forall>n. logical d n = logical dst n \<union> (\<Union>s\<in>set (src # srcs). logical s n)"
    using l l1 by auto
  ultimately show ?case using vd scd rod by blast
qed

text \<open>
  Claim C4. Per-file Indexes (valid, with the schema of \<^verbatim>\<open>newIndex()\<close>) merged one by
  one into a destination with that schema, such as the empty Index of
  \<^verbatim>\<open>newIndex()\<close>: all merges succeed, and the logical content of the result is the
  same for any two sequences of sources whose logical contents are the same multiset,
  in whatever order. (The raw IDs differ between orders, as the example shows.)
\<close>
theorem merge_order_independent:
  assumes "list_all perFile srcs" and "list_all perFile srcs'"
    and "mset (map logical srcs) = mset (map logical srcs')"
    and "valid dst" and "\<not> readonly dst"
    and "schema dst = schema emptyIndex"
  shows "\<exists>d d'. mergeAll dst srcs = Inr d \<and> mergeAll dst srcs' = Inr d' \<and> logical d = logical d'"
proof -
  note sc = assms(6)
  from mergeAll_perFile[OF assms(4) sc assms(5) assms(1)]
  obtain d where d: "mergeAll dst srcs = Inr d"
    and ld: "\<forall>n. logical d n = logical dst n \<union> (\<Union>s\<in>set srcs. logical s n)" by blast
  from mergeAll_perFile[OF assms(4) sc assms(5) assms(2)]
  obtain d' where d': "mergeAll dst srcs' = Inr d'"
    and ld': "\<forall>n. logical d' n = logical dst n \<union> (\<Union>s\<in>set srcs'. logical s n)" by blast
  from assms(3) have "set (map logical srcs) = set (map logical srcs')"
    by (rule mset_eq_setD)
  then have eq: "logical ` set srcs = logical ` set srcs'" by simp
  have "logical d = logical d'"
  proof (rule ext)
    fix n
    have "(\<Union>s\<in>set srcs. logical s n) = (\<Union>L\<in>logical ` set srcs. L n)" by simp
    also have "\<dots> = (\<Union>L\<in>logical ` set srcs'. L n)" using eq by simp
    also have "\<dots> = (\<Union>s\<in>set srcs'. logical s n)" by simp
    finally show "logical d n = logical d' n" using ld ld' by simp
  qed
  with d d' show ?thesis by blast
qed

subsection \<open>Extraction returns valid per-file Indexes\<close>

lemma visitor_valid:
  assumes "valid (perFileIndex p k u rr lr False)" and "visitor c (perFileIndex p k u rr lr False) = Inr (r, idx')"
  shows "\<exists>p' k' u' rr' lr'. idx' = perFileIndex p' k' u' rr' lr' False \<and> valid idx'"
proof -
  from assms(2) obtain usr where usr: "resolvedUSR c = Some usr"
    by (auto simp: visitor_def split: option.splits)
  show ?thesis
  proof (cases "usr = []")
    case True
    with usr assms(2) have "idx' = perFileIndex p k u rr lr False"
      by (simp add: visitor_no_identifier)
    with assms(1) show ?thesis by blast
  next
    case False
    let ?f = "nullToBlank (locationFile c)"
    let ?kd = "nullToBlank (kindSpelling c)"
    define p' where "p' = snd (st_insert ?f p)"
    define k' where "k' = snd (st_insert ?kd k)"
    define u' where "u' = snd (st_insert usr u)"
    define refRow where "refRow = [fst (st_insert usr u), fst (st_insert ?f p),
        unat (locationLine c), unat (locationColumn c), fst (st_insert ?kd k)]"
    define locRow where "locRow = [fst (st_insert ?f p),
        unat (locationLine c), unat (locationColumn c), fst (st_insert usr u)]"
    let ?dst = "perFileIndex p k u rr lr False"
    let ?d = "perFileIndex p' k' u' (rr @ [refRow]) (lr @ [locRow]) False"
    from assms(2) have idx': "idx' = ?d"
      by (simp add: visitor_perFileIndex[OF usr False] p'_def k'_def u'_def refRow_def locRow_def)
    from assms(1) have dstref: "\<forall>r\<in>set rr. validRow ?dst refColumns r"
      and dstloc: "\<forall>r\<in>set lr. validRow ?dst locColumns r"
      and dd: "distinct p" "distinct k" "distinct u"
      by (simp_all add: valid_perFileIndex list_all_iff)
    have ep: "extended ?dst ?d ''path''"
      using st_insert_extends[of ?f p] by (auto simp: extended_def p'_def)
    have ek: "extended ?dst ?d ''kind''"
      using st_insert_extends[of ?kd k] by (auto simp: extended_def k'_def)
    have eu: "extended ?dst ?d ''usr''"
      using st_insert_extends[of usr u] by (auto simp: extended_def u'_def)
    have e0: "extended ?dst ?d []" by (simp add: extended_def)
    have eref: "\<forall>c\<in>set refColumns. extended ?dst ?d c"
      using ep ek eu e0 by (simp add: refColumns_def)
    have eloc: "\<forall>c\<in>set locColumns. extended ?dst ?d c"
      using ep ek eu e0 by (simp add: locColumns_def)
    have oref: "\<forall>r\<in>set rr. validRow ?d refColumns r"
      using dstref resolveRow_extended[OF _ eref] by blast
    have oloc: "\<forall>r\<in>set lr. validRow ?d locColumns r"
      using dstloc resolveRow_extended[OF _ eloc] by blast
    have nref: "validRow ?d refColumns refRow"
      using st_insert_lookup[of usr u] st_insert_lookup[of ?f p] st_insert_lookup[of ?kd k]
      by (simp add: validRow_def validCell_def refColumns_def refRow_def p'_def k'_def u'_def)
    have nloc: "validRow ?d locColumns locRow"
      using st_insert_lookup[of usr u] st_insert_lookup[of ?f p]
      by (simp add: validRow_def validCell_def locColumns_def locRow_def p'_def u'_def)
    have "valid ?d"
      unfolding valid_perFileIndex list_all_iff
      using dd oref oloc nref nloc
      by (auto simp: p'_def k'_def u'_def st_insert_distinct)
    with idx' show ?thesis by blast
  qed
qed

lemma visitAll_valid:
  assumes "valid (perFileIndex p k u rr lr False)"
    and "visitAll ds (perFileIndex p k u rr lr False) = Inr idx'"
  shows "valid idx'"
  using assms
proof (induction ds arbitrary: p k u rr lr)
  case Nil
  then show ?case by simp
next
  case (Cons d ds)
  from Cons.prems(2) obtain r idx1 where v: "visitor d (perFileIndex p k u rr lr False) = Inr (r, idx1)"
    and rest: "visitAll ds idx1 = Inr idx'"
    by (auto split: sum.splits)
  from visitor_valid[OF Cons.prems(1) v] obtain p' k' u' rr' lr' where
    "idx1 = perFileIndex p' k' u' rr' lr' False" "valid idx1" by blast
  with Cons.IH rest show ?case by blast
qed

lemma valid_emptyIndex: "valid emptyIndex"
  by (simp add: emptyIndex_perFileIndex valid_perFileIndex)

lemma indexSourceFile_perFile:
  assumes "indexSourceFile parseTU sfi = Inr idx"
  shows "perFile idx"
proof -
  from indexSourceFile_perFileIndex[OF assms]
  obtain p k u rr ro where idx: "idx = perFileIndex p k u rr (map refToLoc rr) ro" by blast
  then have sc: "schema idx = schema emptyIndex" by (simp add: schema_perFileIndex)
  have "valid idx"
  proof (cases "parseTU (path sfi) (compilerArgs sfi)")
    case None
    with assms show ?thesis by (simp add: indexSourceFile_failed valid_emptyIndex)
  next
    case (Some tu)
    from assms obtain idx0 where v: "visitAll (preorder tu) emptyIndex = Inr idx0"
      and i: "idx = setReadOnly idx0"
      by (auto simp: indexSourceFile_parsed[where parseTU = parseTU and sfi = sfi, OF Some]
          split: sum.splits)
    from visitAll_valid[OF valid_emptyIndex[unfolded emptyIndex_perFileIndex]
        v[unfolded emptyIndex_perFileIndex]]
    have v0: "valid idx0" .
    from visitAll_perFileIndex[OF visitAll_usrNotNull[OF v], of "[]" "[]" "[]" "[]" "[]"] v
    obtain p' k' u' rr' where "idx0 = perFileIndex p' k' u' rr' (map refToLoc rr') False"
      by (auto simp: emptyIndex_perFileIndex)
    with v0 i show ?thesis
      using valid_perFileIndex_readonly[of p' k' u' rr' "map refToLoc rr'" False True] by simp
  qed
  with sc show ?thesis by (simp add: perFile_def)
qed

section \<open>The properties at the example\<close>

lemma resolvedUSR_examples [simp]:
  "resolvedUSR declF = Some ''c:@F@f''" "resolvedUSR bodyF = Some []"
  "resolvedUSR callF = Some ''c:@F@f''" "resolvedUSR declG = Some ''c:@g''"
  by (simp_all add: resolvedUSR_def declF_def bodyF_def callF_def declG_def)

lemma example_fields [simp]:
  "nullToBlank (locationFile declF) = ''a.c''" "nullToBlank (kindSpelling declF) = ''FunctionDecl''"
  "unat (locationLine declF) = 1" "unat (locationColumn declF) = 6"
  "nullToBlank (locationFile callF) = ''a.c''" "nullToBlank (kindSpelling callF) = ''CallExpr''"
  "unat (locationLine callF) = 3" "unat (locationColumn callF) = 5"
  "nullToBlank (locationFile declG) = ''c.c''" "nullToBlank (kindSpelling declG) = ''VarDecl''"
  "unat (locationLine declG) = 2" "unat (locationColumn declG) = 5"
  by (simp_all add: nullToBlank_def declF_def callF_def declG_def)

lemma preorder_examples [simp]:
  "preorder exampleTU = [declF, bodyF, callF]" "preorder otherTU = [declG]"
  by (simp_all add: exampleTU_def otherTU_def)

lemma visitAll_exampleTU:
  "visitAll [declF, bodyF, callF] emptyIndex = Inr (perFileIndex [''a.c''] [''FunctionDecl'', ''CallExpr''] [''c:@F@f'']
       [[0, 0, 1, 6, 0], [0, 0, 3, 5, 1]] [[0, 1, 6, 0], [0, 3, 5, 0]] False)"
  by (simp add: emptyIndex_perFileIndex visitor_perFileIndex[of declF "''c:@F@f''"]
      visitor_perFileIndex[of callF "''c:@F@f''"] visitor_no_identifier st_insert_def)

lemma indexSourceFile_example:
  "indexSourceFile exampleFrontend (sourceFile ''a.c'') = Inr exampleIndex"
proof -
  have "exampleFrontend (path (sourceFile ''a.c'')) (compilerArgs (sourceFile ''a.c'')) = Some exampleTU"
    by (simp add: exampleFrontend_def sourceFile_def)
  from indexSourceFile_parsed[where parseTU = exampleFrontend, OF this]
  show ?thesis
    by (simp only: preorder_examples visitAll_exampleTU) (simp add: exampleIndex_def)
qed

text \<open>Claim C9 at the call of \<^verbatim>\<open>f\<close>, visited on an empty Index.\<close>

theorem visitor_emits_two_facts_witness:
  "resolvedUSR callF = Some ''c:@F@f'' \<and>
   (\<exists>idx' usrID fileNameID kindID.
      visitor callF emptyIndex = Inr (CXChildVisit_Recurse, idx') \<and>
      tableRows idx' ''ref'' = [[usrID, fileNameID, 3, 5, kindID]] \<and>
      tableRows idx' ''loc'' = [[fileNameID, 3, 5, usrID]] \<and>
      stringsOf idx' ''usr'' ! usrID = ''c:@F@f'' \<and>
      stringsOf idx' ''path'' ! fileNameID = ''a.c'' \<and>
      stringsOf idx' ''kind'' ! kindID = ''CallExpr'')"
proof -
  have n: "\<not> readonly emptyIndex" by (simp add: emptyIndex_def)
  have h: "resolvedUSR callF = Some ''c:@F@f''" by simp
  have e: "''c:@F@f'' \<noteq> []" by simp
  from visitor_emits_two_facts[OF refl n h e]
  show ?thesis
    by simp blast
qed

text \<open>Claim C7 at \<^verbatim>\<open>a.c\<close>: three cursors, two of them with an identifier.\<close>

theorem extraction_visits_every_node_witness:
  "list_all usrNotNull (preorder exampleTU) \<and>
   (\<exists>idx. clang_visitChildren tracedVisitor exampleTU (emptyIndex, []) =
             Inr (False, idx, [declF, bodyF, callF]) \<and>
          indexSourceFile exampleFrontend (sourceFile ''a.c'') = Inr (setReadOnly idx) \<and>
          length (tableRows (setReadOnly idx) ''ref'') = 2 \<and>
          length (tableRows (setReadOnly idx) ''loc'') = 2)"
proof -
  have p: "exampleFrontend (path (sourceFile ''a.c'')) (compilerArgs (sourceFile ''a.c'')) = Some exampleTU"
    by (simp add: exampleFrontend_def sourceFile_def)
  have a: "list_all usrNotNull (preorder exampleTU)"
    by (simp add: usrNotNull_def)
  from extraction_visits_every_node[where parseTU = exampleFrontend, OF p a] a
  show ?thesis
    by (simp add: hasIdentifier_def numeral_2_eq_2)
qed

text \<open>Claim C10 at the per-file Index of \<^verbatim>\<open>a.c\<close>, second row.\<close>

theorem ref_and_loc_rows_aligned_witness:
  "indexSourceFile exampleFrontend (sourceFile ''a.c'') = Inr exampleIndex \<and>
   tableRows exampleIndex ''ref'' = [[0, 0, 1, 6, 0], [0, 0, 3, 5, 1]] \<and>
   length (tableRows exampleIndex ''ref'') = length (tableRows exampleIndex ''loc'') \<and>
   tableRows exampleIndex ''ref'' ! 1 ! 0 = tableRows exampleIndex ''loc'' ! 1 ! 3 \<and>
   tableRows exampleIndex ''ref'' ! 1 ! 1 = tableRows exampleIndex ''loc'' ! 1 ! 0 \<and>
   tableRows exampleIndex ''ref'' ! 1 ! 2 = tableRows exampleIndex ''loc'' ! 1 ! 1 \<and>
   tableRows exampleIndex ''ref'' ! 1 ! 3 = tableRows exampleIndex ''loc'' ! 1 ! 2"
proof -
  have r: "tableRows exampleIndex ''ref'' = [[0, 0, 1, 6, 0], [0, 0, 3, 5, 1]]"
    by (simp add: exampleIndex_def)
  from ref_and_loc_rows_aligned[OF indexSourceFile_example]
  have "length (tableRows exampleIndex ''ref'') = length (tableRows exampleIndex ''loc'')"
    and "\<forall>i<length (tableRows exampleIndex ''ref'').
            tableRows exampleIndex ''ref'' ! i ! 0 = tableRows exampleIndex ''loc'' ! i ! 3 \<and>
            tableRows exampleIndex ''ref'' ! i ! 1 = tableRows exampleIndex ''loc'' ! i ! 0 \<and>
            tableRows exampleIndex ''ref'' ! i ! 2 = tableRows exampleIndex ''loc'' ! i ! 1 \<and>
            tableRows exampleIndex ''ref'' ! i ! 3 = tableRows exampleIndex ''loc'' ! i ! 2"
    by blast+
  moreover have "1 < length (tableRows exampleIndex ''ref'')" by (simp add: r)
  ultimately show ?thesis using indexSourceFile_example r by blast
qed

text \<open>
  Claim C8 at the call of \<^verbatim>\<open>f\<close>: its own USR is empty, the rows carry the USR of
  the declaration it refers to.
\<close>

theorem visitor_uses_referenced_identifier_witness:
  "cursorUSR callF = Some [] \<and> cursorReferenced callF = Some (Some ''c:@F@f'') \<and>
   (\<exists>idx'. visitor callF emptyIndex = Inr (CXChildVisit_Recurse, idx') \<and>
      length (tableRows idx' ''ref'') = 1 \<and> length (tableRows idx' ''loc'') = 1 \<and>
      resolveRow idx' refColumns (last (tableRows idx' ''ref'')) =
        [Some (Str ''c:@F@f''), Some (Str ''a.c''), Some (Raw 3), Some (Raw 5), Some (Str ''CallExpr'')] \<and>
      resolveRow idx' locColumns (last (tableRows idx' ''loc'')) =
        [Some (Str ''a.c''), Some (Raw 3), Some (Raw 5), Some (Str ''c:@F@f'')])"
proof -
  have n: "\<not> readonly emptyIndex" by (simp add: emptyIndex_def)
  have e: "''c:@F@f'' \<noteq> []" by simp
  have c: "cursorReferenced callF = Some (Some ''c:@F@f'') \<or>
           cursorReferenced callF = None \<and> cursorUSR callF = Some ''c:@F@f''"
    by (simp add: callF_def)
  from visitor_uses_referenced_identifier[OF refl n e c]
  show ?thesis
    by (simp add: emptyIndex_perFileIndex) (simp add: callF_def)
qed

lemma readSourceFileInfo_file:
  "readSourceFileInfo (JObject [(''file'', JString p)]) = Inr (sourceFile p)"
  by (simp add: readSourceFileInfo_def jsonMember_def asString_def readJsonStringList_def
      elements_def bindE_def sourceFile_def)

lemma mapE_descriptorOf:
  "mapE readSourceFileInfo (elements (descriptorOf ps)) = Inr (map sourceFile ps)"
  by (induction ps) (simp_all add: descriptorOf_def elements_def readSourceFileInfo_file)

lemma length_elements_descriptorOf [simp]: "length (elements (descriptorOf ps)) = length ps"
  by (simp add: descriptorOf_def elements_def)

lemma indexSourceFile_b: "indexSourceFile exampleFrontend (sourceFile ''b.c'') = Inr emptyIndex"
  by (rule indexSourceFile_failed) (simp add: exampleFrontend_def sourceFile_def)

lemma indexSourceFile_c: "indexSourceFile exampleFrontend (sourceFile ''c.c'') = Inr otherIndex"
proof -
  have "exampleFrontend (path (sourceFile ''c.c'')) (compilerArgs (sourceFile ''c.c'')) = Some otherTU"
    by (simp add: exampleFrontend_def sourceFile_def)
  from indexSourceFile_parsed[where parseTU = exampleFrontend, OF this]
  show ?thesis
    by (simp add: emptyIndex_perFileIndex visitor_perFileIndex[of declG "''c:@g''"]
        st_insert_def otherIndex_def)
qed

lemma path_sourceFile [simp]: "path (sourceFile p) = p"
  by (simp add: sourceFile_def)

lemma mset_exampleSched: "mset exampleSched = mset [0..<length (elements threeFiles)]"
  by (simp add: exampleSched_def threeFiles_def numeral_2_eq_2)

lemma mapE_threeFiles:
  "mapE readSourceFileInfo (elements threeFiles) =
     Inr [sourceFile ''a.c'', sourceFile ''b.c'', sourceFile ''c.c'']"
  by (simp add: threeFiles_def mapE_descriptorOf)

text \<open>The merges of the Indexes of \<^verbatim>\<open>a.c\<close> and \<^verbatim>\<open>c.c\<close>, evaluated.\<close>

lemmas merge_eval =
  merge_def schema_def bindE_def translationMap_def mergeStringTables_def st_insert_def translateCell_def
  refColumns_def locColumns_def

lemma merge_empty_example: "merge emptyIndex exampleIndex =
    Inr mergedA"
  by (simp add: emptyIndex_def exampleIndex_def mergedA_def perFileIndex_def merge_eval)

lemma merge_example_other: "merge mergedA otherIndex = Inr mergedAC"
  by (simp add: otherIndex_def mergedA_def mergedAC_def perFileIndex_def merge_eval)

lemma merge_example_empty: "merge mergedA emptyIndex =
    Inr mergedA"
  by (simp add: emptyIndex_def mergedA_def perFileIndex_def merge_eval)

lemma merge_empty_other: "merge emptyIndex otherIndex =
    Inr mergedC"
  by (simp add: emptyIndex_def otherIndex_def mergedC_def perFileIndex_def merge_eval)

lemma merge_other_example: "merge mergedC
     exampleIndex = Inr mergedCA"
  by (simp add: exampleIndex_def mergedC_def mergedCA_def perFileIndex_def merge_eval)

lemma mergeAll_AC: "mergeAll emptyIndex [exampleIndex, otherIndex] = Inr mergedAC"
  by (simp add: merge_empty_example merge_example_other)

lemma mergeAll_CA: "mergeAll emptyIndex [otherIndex, exampleIndex] = Inr mergedCA"
  by (simp add: merge_empty_other merge_other_example)



lemma readSourcesJson_threeFiles:
  "readSourcesJson exampleFrontend exampleSched threeFiles emptyIndex =
     Inr (mergedAC, threeFilesTrace)"
  by (simp add: readSourcesJson_sched[OF mset_exampleSched] mapE_threeFiles
      indexSourceFile_example indexSourceFile_b indexSourceFile_c
      merge_empty_example merge_example_empty merge_example_other
      threeFilesTrace_def upt_rec)

text \<open>Claim C1 at a descriptor that lists no file.\<close>

theorem main_saves_index_without_tables_witness:
  "elements (parseDescriptor (Contents (descriptorOf []))) = [] \<and>
   main exampleFrontend [] (Contents (descriptorOf [])) =
     Inr \<lparr>exitCode = 0, savedIndex = \<lparr>stringTables = [], tables = [], readonly = True\<rparr>,
          events = []\<rparr> \<and>
   schema \<lparr>stringTables = [], tables = [], readonly = True\<rparr> \<noteq> schema emptyIndex"
proof -
  have e: "elements (parseDescriptor (Contents (descriptorOf []))) = []"
    by (simp add: parseDescriptor_def descriptorOf_def elements_def)
  have m: "main exampleFrontend [] (Contents (descriptorOf [])) =
     Inr \<lparr>exitCode = 0, savedIndex = \<lparr>stringTables = [], tables = [], readonly = True\<rparr>,
          events = []\<rparr>"
    using e by (simp add: main_def readSourcesJson_def setReadOnly_def Index_new_def)
  from main_saves_index_without_tables[OF e, of exampleFrontend "[]"] e m show ?thesis
    by auto
qed

text \<open>Claim C2, as amended, at a descriptor whose root is a string.\<close>

theorem unreadable_descriptor_exits_zero_witness:
  "elements (parseDescriptor (Contents (JString ''not a list''))) = [] \<and>
   main exampleFrontend [] (Contents (JString ''not a list'')) =
     Inr \<lparr>exitCode = 0, savedIndex = setReadOnly Index_new, events = []\<rparr>"
proof -
  have e: "elements (parseDescriptor (Contents (JString ''not a list''))) = []"
    by (simp add: parseDescriptor_def elements_def)
  from unreadable_descriptor_exits_zero[OF e] e show ?thesis by simp
qed

text \<open>
  Claim C2 as stated fails at a descriptor that cannot be read: main returns 0 and
  the global Index has been saved.
\<close>

theorem unreadable_descriptor_counterexample:
  "main exampleFrontend [] Unreadable =
     Inr \<lparr>exitCode = 0, savedIndex = \<lparr>stringTables = [], tables = [], readonly = True\<rparr>,
          events = []\<rparr>"
  by (simp add: main_def readSourcesJson_def parseDescriptor_def elements_def
      setReadOnly_def Index_new_def)


text \<open>Claim C5 at the per-file Index of \<^verbatim>\<open>a.c\<close>.\<close>

theorem per_file_schema_and_global_schema_witness:
  "indexSourceFile exampleFrontend (sourceFile ''a.c'') = Inr exampleIndex \<and>
   schema exampleIndex = schema emptyIndex \<and> schema Index_new \<noteq> schema exampleIndex"
  using per_file_schema_and_global_schema[OF indexSourceFile_example] indexSourceFile_example
  by blast

text \<open>
  Claim C6 at the three files and a global Index made by \<^verbatim>\<open>newIndex()\<close>, for a pool
  that runs the tasks in the order 2, 0, 1, and for one that runs them in the order
  1, 2, 0.
\<close>

theorem results_consumed_in_submission_order_witness:
  "mset exampleSched = mset [0..<length (elements threeFiles)] \<and>
   readSourcesJson exampleFrontend exampleSched threeFiles emptyIndex =
     Inr (mergedAC, threeFilesTrace) \<and>
   (\<exists>sfis fileIndexes.
      mapE readSourceFileInfo (elements threeFiles) = Inr sfis \<and>
      map (indexSourceFile exampleFrontend) sfis = map Inr fileIndexes \<and>
      mergeAll emptyIndex fileIndexes = Inr mergedAC \<and>
      threeFilesTrace =
        map Submitted [0..<length sfis] @ concat (map consumed (enumerate 0 (map path sfis)))) \<and>
   readSourcesJson exampleFrontend otherSched threeFiles emptyIndex =
     Inr (mergedAC, threeFilesTrace)"
proof -
  note s = mset_exampleSched
  have s': "mset otherSched = mset exampleSched"
    by (simp add: otherSched_def exampleSched_def)
  from results_consumed_in_submission_order[OF s readSourcesJson_threeFiles]
  obtain sfis fileIndexes where
    1: "mapE readSourceFileInfo (elements threeFiles) = Inr sfis"
    and 2: "map (indexSourceFile exampleFrontend) sfis = map Inr fileIndexes"
    and 3: "mergeAll emptyIndex fileIndexes = Inr mergedAC"
    and 4: "threeFilesTrace =
        map Submitted [0..<length sfis] @ concat (map consumed (enumerate 0 (map path sfis)))"
    and 5: "\<forall>sched'. mset sched' = mset exampleSched \<longrightarrow>
        readSourcesJson exampleFrontend sched' threeFiles emptyIndex =
          Inr (mergedAC, threeFilesTrace)"
    by blast
  from 5 s' have 6: "readSourcesJson exampleFrontend otherSched
      threeFiles emptyIndex = Inr (mergedAC, threeFilesTrace)"
    by blast
  from 1 2 3 4 have "\<exists>sfis fileIndexes.
      mapE readSourceFileInfo (elements threeFiles) = Inr sfis \<and>
      map (indexSourceFile exampleFrontend) sfis = map Inr fileIndexes \<and>
      mergeAll emptyIndex fileIndexes = Inr mergedAC \<and>
      threeFilesTrace =
        map Submitted [0..<length sfis] @ concat (map consumed (enumerate 0 (map path sfis)))"
    by blast
  with s readSourcesJson_threeFiles 6 show ?thesis by blast
qed

text \<open>
  Claim C4 at the Indexes of \<^verbatim>\<open>a.c\<close> and \<^verbatim>\<open>c.c\<close>, merged in both orders: the
  logical contents agree, the raw rows do not.
\<close>

theorem merge_order_independent_witness:
  "list_all perFile [exampleIndex, otherIndex] \<and> valid emptyIndex \<and>
   mergeAll emptyIndex [exampleIndex, otherIndex] = Inr mergedAC \<and>
   mergeAll emptyIndex [otherIndex, exampleIndex] = Inr mergedCA \<and>
   logical mergedAC = logical mergedCA \<and>
   tableRows mergedAC ''ref'' \<noteq> tableRows mergedCA ''ref''"
proof -
  have pf: "list_all perFile [exampleIndex, otherIndex]"
    using indexSourceFile_perFile[OF indexSourceFile_example]
      indexSourceFile_perFile[OF indexSourceFile_c] by simp
  have pf': "list_all perFile [otherIndex, exampleIndex]" using pf by simp
  have ms: "mset (map logical [exampleIndex, otherIndex]) = mset (map logical [otherIndex, exampleIndex])"
    by simp
  have ro: "\<not> readonly emptyIndex" by (simp add: emptyIndex_def)
  have sc: "schema emptyIndex = schema emptyIndex" by simp
  from merge_order_independent[OF pf pf' ms valid_emptyIndex ro sc,
      unfolded mergeAll_AC mergeAll_CA]
  have "logical mergedAC = logical mergedCA"
    by simp
  moreover have "tableRows mergedAC ''ref'' \<noteq> tableRows mergedCA ''ref''"
    by (simp add: mergedAC_def mergedCA_def)
  ultimately show ?thesis using pf valid_emptyIndex mergeAll_AC mergeAll_CA by blast
qed

end
